theory Spec2Isabelle
  imports Complex_Main "HOL-Library.AList" "HOL-Library.Log_Nat" "HOL-Library.Word"
begin

section \<open>Python values that reach the consensus state\<close>

text \<open>
  The module \<^verbatim>\<open>consensus_state.py\<close> keeps two scalars and a dictionary of named tuples,
  writes them with \<^verbatim>\<open>cbor.dumps\<close> and reads them back with \<^verbatim>\<open>cbor.loads\<close>. What
  \<^verbatim>\<open>cbor.loads\<close> hands to \<^verbatim>\<open>parse_from_bytes\<close> is an arbitrary Python value, so the
  model has a type of Python values.

  A float is either a finite number, an infinity or a NaN. The finite floats are modelled by
  the rationals, a superset of the binary64 values: the two zeros are identified (Python's
  \<^verbatim>\<open>==\<close>, \<^verbatim>\<open><\<close> and \<^verbatim>\<open>math.isfinite\<close> do not tell them apart) and so are the NaNs.
  Rounding to binary64 is a parameter of the model (\<open>round_float\<close> below).
\<close>

type_synonym byte = "8 word"

datatype pyfloat = Finite rat | PosInf | NegInf | NaN

datatype pyval =
    PNone
  | PBool bool
  | PInt int
  | PFloat pyfloat
  | PStr string
  | PBytes "byte list"
  | PList "pyval list"
  | PTuple "pyval list"
  | PDict "(pyval \<times> pyval) list"
  | PTag nat pyval

text \<open>
  Exceptions are values. \<open>ValueError\<close> carries its cause; the causes are the messages of the
  module, each with the values its format string prints, and \<open>ErrorParsing e\<close> is
  \<^verbatim>\<open>'Error parsing ConsensusState buffer: {}'.format(e)\<close>. \<open>BuiltinValueError\<close> is a
  \<open>ValueError\<close> raised by a builtin or by the codec. \<open>OtherException\<close> stands for every
  exception class outside the ones named here.
\<close>

datatype pyexc =
    ValueError reason
  | TypeError
  | KeyError pyval
  | LookupError
  | OverflowError
  | OtherException
and reason =
    NotAConsensusState
  | AggregateLocalMeanInvalid pyfloat
  | TotalBlockClaimCountInvalid pyval
  | ValidatorsNotADict
  | KeyBlockClaimCountInvalid pyval
  | PoetPublicKeyInvalid pyval
  | TotalLessThanKey pyval pyval
  | BuiltinValueError
  | ErrorParsing pyexc

text \<open>
  What the module takes from outside itself: the \<^verbatim>\<open>cbor\<close> package, the text parsers behind
  \<^verbatim>\<open>float(str)\<close> and \<^verbatim>\<open>int(str)\<close>, \<^verbatim>\<open>str\<close> of a value that is not a string, and the
  rounding of an exact sum or integer to a float. They are parameters: every theorem below
  holds for all of them, unless it states a hypothesis about one.
\<close>

record pylib =
  cbor_loads :: "byte list \<Rightarrow> pyexc + pyval"
  cbor_dumps :: "pyval \<Rightarrow> pyexc + byte list"
  float_of_text :: "pyval \<Rightarrow> pyfloat option"
  int_of_text :: "pyval \<Rightarrow> int option"
  str_of :: "pyval \<Rightarrow> string"
  round_float :: "rat \<Rightarrow> pyfloat"

subsection \<open>Builtins\<close>

text \<open>\<^verbatim>\<open>math.isfinite(x)\<close> and \<^verbatim>\<open>x < 0\<close> on a float.\<close>

fun isfinite :: "pyfloat \<Rightarrow> bool" where
  "isfinite (Finite q) = True"
| "isfinite PosInf = False"
| "isfinite NegInf = False"
| "isfinite NaN = False"

fun float_lt_zero :: "pyfloat \<Rightarrow> bool" where
  "float_lt_zero (Finite q) = (q < 0)"
| "float_lt_zero PosInf = False"
| "float_lt_zero NegInf = True"
| "float_lt_zero NaN = False"

text \<open>Float addition: exact on the finite values, then rounded.\<close>

fun float_add :: "pylib \<Rightarrow> pyfloat \<Rightarrow> pyfloat \<Rightarrow> pyfloat" where
  "float_add lib (Finite a) (Finite b) = round_float lib (a + b)"
| "float_add lib NaN y = NaN"
| "float_add lib x NaN = NaN"
| "float_add lib PosInf NegInf = NaN"
| "float_add lib NegInf PosInf = NaN"
| "float_add lib PosInf y = PosInf"
| "float_add lib NegInf y = NegInf"
| "float_add lib x PosInf = PosInf"
| "float_add lib x NegInf = NegInf"

text \<open>
  \<^verbatim>\<open>float(v)\<close>: a float is returned as it is, an integer is rounded (\<open>OverflowError\<close> when it
  is too large for a float), a string or a bytes object is parsed (\<open>ValueError\<close> when it does
  not parse), anything else is a \<open>TypeError\<close>.
\<close>

definition py_float :: "pylib \<Rightarrow> pyval \<Rightarrow> pyexc + pyfloat" where
  "py_float lib v =
    (case v of
       PFloat f \<Rightarrow> Inr f
     | PInt n \<Rightarrow>
         (case round_float lib (of_int n) of
            Finite q \<Rightarrow> Inr (Finite q)
          | _ \<Rightarrow> Inl OverflowError)
     | PBool b \<Rightarrow> Inr (Finite (of_bool b))
     | PStr s \<Rightarrow>
         (case float_of_text lib v of
            None \<Rightarrow> Inl (ValueError BuiltinValueError)
          | Some f \<Rightarrow> Inr f)
     | PBytes s \<Rightarrow>
         (case float_of_text lib v of
            None \<Rightarrow> Inl (ValueError BuiltinValueError)
          | Some f \<Rightarrow> Inr f)
     | _ \<Rightarrow> Inl TypeError)"

text \<open>Truncation toward zero, as \<^verbatim>\<open>int(x)\<close> does on a finite float.\<close>

definition trunc_toward_zero :: "rat \<Rightarrow> int" where
  "trunc_toward_zero q = (if 0 \<le> q then \<lfloor>q\<rfloor> else \<lceil>q\<rceil>)"

text \<open>
  \<^verbatim>\<open>int(v)\<close>: an integer is returned as it is, a finite float is truncated toward zero, an
  infinity is an \<open>OverflowError\<close> and a NaN a \<open>ValueError\<close>, a string or a bytes object is
  parsed, anything else is a \<open>TypeError\<close>.
\<close>

definition py_int :: "pylib \<Rightarrow> pyval \<Rightarrow> pyexc + int" where
  "py_int lib v =
    (case v of
       PInt n \<Rightarrow> Inr n
     | PBool b \<Rightarrow> Inr (of_bool b)
     | PFloat f \<Rightarrow>
         (case f of
            Finite q \<Rightarrow> Inr (trunc_toward_zero q)
          | NaN \<Rightarrow> Inl (ValueError BuiltinValueError)
          | _ \<Rightarrow> Inl OverflowError)
     | PStr s \<Rightarrow>
         (case int_of_text lib v of
            None \<Rightarrow> Inl (ValueError BuiltinValueError)
          | Some n \<Rightarrow> Inr n)
     | PBytes s \<Rightarrow>
         (case int_of_text lib v of
            None \<Rightarrow> Inl (ValueError BuiltinValueError)
          | Some n \<Rightarrow> Inr n)
     | _ \<Rightarrow> Inl TypeError)"

text \<open>\<^verbatim>\<open>str(v)\<close>: a string is returned as it is.\<close>

definition py_str :: "pylib \<Rightarrow> pyval \<Rightarrow> string" where
  "py_str lib v = (case v of PStr s \<Rightarrow> s | _ \<Rightarrow> str_of lib v)"

text \<open>
  \<^verbatim>\<open>isinstance(v, int)\<close>, with the integer when it holds. \<^verbatim>\<open>bool\<close> is a subclass of
  \<^verbatim>\<open>int\<close> in Python: \<^verbatim>\<open>True\<close> is an instance of \<^verbatim>\<open>int\<close> and compares as 1.
\<close>

fun int_instance :: "pyval \<Rightarrow> int option" where
  "int_instance (PInt n) = Some n"
| "int_instance (PBool b) = Some (of_bool b)"
| "int_instance v = None"

text \<open>\<^verbatim>\<open>v + 1\<close>, the only addition the module does on a stored count.\<close>

definition py_add1 :: "pylib \<Rightarrow> pyval \<Rightarrow> pyexc + pyval" where
  "py_add1 lib v =
    (case v of
       PInt n \<Rightarrow> Inr (PInt (n + 1))
     | PBool b \<Rightarrow> Inr (PInt (of_bool b + 1))
     | PFloat f \<Rightarrow> Inr (PFloat (float_add lib f (Finite 1)))
     | _ \<Rightarrow> Inl TypeError)"

text \<open>
  The elements an iteration over \<open>v\<close> yields, \<open>None\<close> when \<open>v\<close> is not iterable: a string
  yields its characters, a bytes object its bytes as integers, a dictionary its keys.
\<close>

definition py_iter :: "pyval \<Rightarrow> pyval list option" where
  "py_iter v =
    (case v of
       PList xs \<Rightarrow> Some xs
     | PTuple xs \<Rightarrow> Some xs
     | PStr s \<Rightarrow> Some (map (\<lambda>c. PStr [c]) s)
     | PBytes bs \<Rightarrow> Some (map (\<lambda>b. PInt (uint b)) bs)
     | PDict d \<Rightarrow> Some (map fst d)
     | _ \<Rightarrow> None)"

text \<open>\<^verbatim>\<open>d[k]\<close> on a decoded dictionary with a string key.\<close>

definition subscript :: "(pyval \<times> pyval) list \<Rightarrow> string \<Rightarrow> pyexc + pyval" where
  "subscript d k =
    (case map_of d (PStr k) of
       None \<Rightarrow> Inl (KeyError (PStr k))
     | Some v \<Rightarrow> Inr v)"

section \<open>The data model\<close>

text \<open>
  \<^verbatim>\<open>ValidatorState\<close> is a named tuple of three fields; Python does not type them, so each
  is a Python value. \<^verbatim>\<open>ValidatorInfo\<close> and \<^verbatim>\<open>WaitCertificate\<close> come from other modules;
  the module reads \<^verbatim>\<open>id\<close>, \<^verbatim>\<open>name\<close> and \<^verbatim>\<open>signup_info.poet_public_key\<close> of the first
  (strings) and \<^verbatim>\<open>local_mean\<close> of the second (a float).
\<close>

record ValidatorState =
  key_block_claim_count :: pyval
  poet_public_key :: pyval
  total_block_claim_count :: pyval

record SignupInfo =
  signup_poet_public_key :: string

record ValidatorInfo =
  vi_id :: string
  vi_name :: string
  signup_info :: SignupInfo

record WaitCertificate =
  local_mean :: pyfloat

text \<open>
  The attributes of a \<^verbatim>\<open>ConsensusState\<close> object. \<open>aggregate_local_mean\<close> is a float
  (\<^verbatim>\<open>0.0\<close>, a float sum, or a result of \<^verbatim>\<open>float\<close>), \<open>cs_total_block_claim_count\<close> is
  the attribute \<^verbatim>\<open>total_block_claim_count\<close>, an integer (\<^verbatim>\<open>0\<close>, a successor, or a result
  of \<^verbatim>\<open>int\<close>), and \<open>validators\<close> is the dictionary \<^verbatim>\<open>_validators\<close>, in insertion order.
\<close>

record ConsensusState =
  aggregate_local_mean :: pyfloat
  cs_total_block_claim_count :: int
  validators :: "(string \<times> ValidatorState) list"

text \<open>\<^verbatim>\<open>__init__\<close>.\<close>

definition init :: ConsensusState where
  "init = \<lparr>aggregate_local_mean = Finite 0, cs_total_block_claim_count = 0, validators = []\<rparr>"

section \<open>The operations\<close>

text \<open>\<^verbatim>\<open>_check_validator_state\<close>: the four checks in the order of the source.\<close>

definition check_validator_state :: "ValidatorState \<Rightarrow> pyexc + unit" where
  "check_validator_state vs =
    (case int_instance (key_block_claim_count vs) of
       None \<Rightarrow> Inl (ValueError (KeyBlockClaimCountInvalid (key_block_claim_count vs)))
     | Some k \<Rightarrow>
         if k < 0 then Inl (ValueError (KeyBlockClaimCountInvalid (key_block_claim_count vs)))
         else
           (case poet_public_key vs of
              PStr p \<Rightarrow>
                if length p < 1 then Inl (ValueError (PoetPublicKeyInvalid (poet_public_key vs)))
                else
                  (case int_instance (total_block_claim_count vs) of
                     None \<Rightarrow>
                       Inl (ValueError (TotalBlockClaimCountInvalid (total_block_claim_count vs)))
                   | Some t \<Rightarrow>
                       if t < 0
                       then Inl (ValueError
                                  (TotalBlockClaimCountInvalid (total_block_claim_count vs)))
                       else if k > t
                       then Inl (ValueError
                                  (TotalLessThanKey (total_block_claim_count vs)
                                     (key_block_claim_count vs)))
                       else Inr ())
            | _ \<Rightarrow> Inl (ValueError (PoetPublicKeyInvalid (poet_public_key vs)))))"

text \<open>
  \<^verbatim>\<open>get_validator_state\<close>: the stored record, or a default record that is stored first.
  The result is the record and the object after the call.
\<close>

definition get_validator_state ::
  "ConsensusState \<Rightarrow> ValidatorInfo \<Rightarrow> ValidatorState \<times> ConsensusState" where
  "get_validator_state s validator_info =
    (case map_of (validators s) (vi_id validator_info) of
       None \<Rightarrow>
         (let validator_state =
                \<lparr>key_block_claim_count = PInt 0,
                 poet_public_key = PStr (signup_poet_public_key (signup_info validator_info)),
                 total_block_claim_count = PInt 0\<rparr>
          in (validator_state,
              s\<lparr>validators :=
                   AList.update (vi_id validator_info) validator_state (validators s)\<rparr>))
     | Some validator_state \<Rightarrow> (validator_state, s))"

text \<open>
  \<^verbatim>\<open>validator_did_claim_block\<close>. The two statistics are updated first, then the record is
  fetched (and created if it is missing), then the new record replaces it. The call has no
  \<^verbatim>\<open>try\<close>: a \<open>TypeError\<close> of \<^verbatim>\<open>+ 1\<close> on a stored value that is not a number leaves the
  object as it is at that point. The \<^verbatim>\<open>LOGGER.debug\<close> call does not change the state.
\<close>

definition validator_did_claim_block ::
  "pylib \<Rightarrow> ConsensusState \<Rightarrow> ValidatorInfo \<Rightarrow> WaitCertificate
     \<Rightarrow> (pyexc + unit) \<times> ConsensusState" where
  "validator_did_claim_block lib s validator_info wait_certificate =
    (let s1 = s\<lparr>aggregate_local_mean :=
                   float_add lib (aggregate_local_mean s) (local_mean wait_certificate)\<rparr>;
         s2 = s1\<lparr>cs_total_block_claim_count := cs_total_block_claim_count s1 + 1\<rparr>;
         (validator_state, s3) = get_validator_state s2 validator_info;
         ppk = signup_poet_public_key (signup_info validator_info)
     in case py_add1 lib (total_block_claim_count validator_state) of
          Inl e \<Rightarrow> (Inl e, s3)
        | Inr new_total \<Rightarrow>
            (case (if PStr ppk = poet_public_key validator_state
                   then py_add1 lib (key_block_claim_count validator_state)
                   else Inr (PInt 1)) of
               Inl e \<Rightarrow> (Inl e, s3)
             | Inr new_key \<Rightarrow>
                 (Inr (),
                  s3\<lparr>validators :=
                       AList.update (vi_id validator_info)
                         \<lparr>key_block_claim_count = new_key,
                          poet_public_key = PStr ppk,
                          total_block_claim_count = new_total\<rparr>
                         (validators s3)\<rparr>)))"

text \<open>
  \<^verbatim>\<open>serialize_to_bytes\<close>: \<^verbatim>\<open>cbor.dumps(self.__dict__)\<close>. The dictionary of the object has
  the three attributes in the order \<^verbatim>\<open>__init__\<close> sets them; a named tuple is a tuple.
\<close>

definition validator_state_tuple :: "ValidatorState \<Rightarrow> pyval" where
  "validator_state_tuple vs =
    PTuple [key_block_claim_count vs, poet_public_key vs, total_block_claim_count vs]"

definition self_dict :: "ConsensusState \<Rightarrow> pyval" where
  "self_dict s =
    PDict [(PStr ''aggregate_local_mean'', PFloat (aggregate_local_mean s)),
           (PStr ''total_block_claim_count'', PInt (cs_total_block_claim_count s)),
           (PStr ''_validators'',
            PDict (map (\<lambda>(k, vs). (PStr k, validator_state_tuple vs)) (validators s)))]"

definition serialize_to_bytes :: "pylib \<Rightarrow> ConsensusState \<Rightarrow> pyexc + byte list" where
  "serialize_to_bytes lib s = cbor_dumps lib (self_dict s)"

text \<open>
  \<^verbatim>\<open>ValidatorState._make(value)\<close>: a tuple of the elements of \<open>value\<close>, which must be three;
  a value that is not iterable or has another length is a \<open>TypeError\<close>.
\<close>

definition make :: "pyval \<Rightarrow> pyexc + ValidatorState" where
  "make v =
    (case py_iter v of
       None \<Rightarrow> Inl TypeError
     | Some xs \<Rightarrow>
         (case xs of
            [k, p, t] \<Rightarrow>
              Inr \<lparr>key_block_claim_count = k, poet_public_key = p, total_block_claim_count = t\<rparr>
          | _ \<Rightarrow> Inl TypeError))"

text \<open>
  The loop of \<^verbatim>\<open>parse_from_bytes\<close> over \<^verbatim>\<open>validators.items()\<close>: each record is made,
  checked and stored under \<^verbatim>\<open>str(key)\<close>; the first failure stops the loop and leaves the
  records stored so far.
\<close>

fun parse_validators ::
  "pylib \<Rightarrow> (pyval \<times> pyval) list \<Rightarrow> ConsensusState \<Rightarrow> (pyexc + unit) \<times> ConsensusState" where
  "parse_validators lib [] s = (Inr (), s)"
| "parse_validators lib ((key, v) # rest) s =
    (case make v of
       Inl e \<Rightarrow> (Inl e, s)
     | Inr validator_state \<Rightarrow>
         (case check_validator_state validator_state of
            Inl e \<Rightarrow> (Inl e, s)
          | Inr u \<Rightarrow>
              parse_validators lib rest
                (s\<lparr>validators :=
                     AList.update (py_str lib key) validator_state (validators s)\<rparr>)))"

text \<open>
  The body of the \<^verbatim>\<open>try\<close> of \<^verbatim>\<open>parse_from_bytes\<close>, statement by statement: each
  attribute is assigned when its statement is reached, before the checks that follow.
\<close>

definition parse_body ::
  "pylib \<Rightarrow> ConsensusState \<Rightarrow> byte list \<Rightarrow> (pyexc + unit) \<times> ConsensusState" where
  "parse_body lib s buffer =
    (case cbor_loads lib buffer of
       Inl e \<Rightarrow> (Inl e, s)
     | Inr loaded \<Rightarrow>
         (case loaded of
            PDict d \<Rightarrow>
              (case subscript d ''aggregate_local_mean'' of
                 Inl e \<Rightarrow> (Inl e, s)
               | Inr a \<Rightarrow>
                   (case py_float lib a of
                      Inl e \<Rightarrow> (Inl e, s)
                    | Inr f \<Rightarrow>
                        (let s1 = s\<lparr>aggregate_local_mean := f\<rparr>
                         in case subscript d ''total_block_claim_count'' of
                              Inl e \<Rightarrow> (Inl e, s1)
                            | Inr t \<Rightarrow>
                                (case py_int lib t of
                                   Inl e \<Rightarrow> (Inl e, s1)
                                 | Inr n \<Rightarrow>
                                     (let s2 = s1\<lparr>cs_total_block_claim_count := n\<rparr>
                                      in case subscript d ''_validators'' of
                                           Inl e \<Rightarrow> (Inl e, s2)
                                         | Inr vals \<Rightarrow>
                                             if \<not> isfinite f \<or> float_lt_zero f
                                             then (Inl (ValueError (AggregateLocalMeanInvalid f)),
                                                   s2)
                                             else if n < 0
                                             then (Inl (ValueError
                                                         (TotalBlockClaimCountInvalid (PInt n))),
                                                   s2)
                                             else
                                               (case vals of
                                                  PDict vd \<Rightarrow>
                                                    parse_validators lib vd
                                                      (s2\<lparr>validators := []\<rparr>)
                                                | _ \<Rightarrow>
                                                    (Inl (ValueError ValidatorsNotADict),
                                                     s2)))))))
          | _ \<Rightarrow> (Inl (ValueError NotAConsensusState), s)))"

text \<open>
  The \<^verbatim>\<open>except (LookupError, ValueError, KeyError, TypeError)\<close> clause: the classes it
  names, with their subclasses.
\<close>

fun caught :: "pyexc \<Rightarrow> bool" where
  "caught (ValueError r) = True"
| "caught TypeError = True"
| "caught (KeyError k) = True"
| "caught LookupError = True"
| "caught OverflowError = False"
| "caught OtherException = False"

text \<open>
  \<^verbatim>\<open>parse_from_bytes\<close>: the result of the call (an exception or \<^verbatim>\<open>None\<close>) and the object
  after it.
\<close>

definition parse_from_bytes ::
  "pylib \<Rightarrow> ConsensusState \<Rightarrow> byte list \<Rightarrow> (pyexc + unit) \<times> ConsensusState" where
  "parse_from_bytes lib s buffer =
    (case parse_body lib s buffer of
       (Inl e, s') \<Rightarrow> if caught e then (Inl (ValueError (ErrorParsing e)), s') else (Inl e, s')
     | (Inr u, s') \<Rightarrow> (Inr u, s'))"

section \<open>Notions the statements use\<close>

text \<open>
  The invariant of a validator record, in the words of the data model: both counts are
  integers and not negative, the key is a string and not empty, and the count under the
  current key is at most the total count. An integer is an instance of \<^verbatim>\<open>int\<close>, so
  \<^verbatim>\<open>True\<close> and \<^verbatim>\<open>False\<close> are integers (1 and 0).
\<close>

definition record_invariant :: "ValidatorState \<Rightarrow> bool" where
  "record_invariant vs =
    (case (int_instance (key_block_claim_count vs), poet_public_key vs,
           int_instance (total_block_claim_count vs)) of
       (Some k, PStr p, Some t) \<Rightarrow> 0 \<le> k \<and> p \<noteq> [] \<and> 0 \<le> t \<and> k \<le> t
     | _ \<Rightarrow> False)"

text \<open>
  A valid consensus state: the aggregate is finite and not negative, the total is not
  negative, every record satisfies the invariant, and the dictionary has each key once.
\<close>

definition valid_state :: "ConsensusState \<Rightarrow> bool" where
  "valid_state s \<longleftrightarrow>
     isfinite (aggregate_local_mean s) \<and> \<not> float_lt_zero (aggregate_local_mean s)
     \<and> 0 \<le> cs_total_block_claim_count s
     \<and> list_all (\<lambda>(i, vs). record_invariant vs) (validators s)
     \<and> distinct (map fst (validators s))"

text \<open>The default record of \<^verbatim>\<open>get_validator_state\<close>.\<close>

definition default_state :: "ValidatorInfo \<Rightarrow> ValidatorState" where
  "default_state validator_info =
    \<lparr>key_block_claim_count = PInt 0,
     poet_public_key = PStr (signup_poet_public_key (signup_info validator_info)),
     total_block_claim_count = PInt 0\<rparr>"

text \<open>
  What the codec does to a value on the way through the bytes: CBOR has one array type, so
  a tuple (a named tuple is one) comes back from \<^verbatim>\<open>cbor.loads\<close> as a list; every
  other value comes back as it was written. \<open>reads_back lib v\<close> says that the codec
  reads back the value \<open>v\<close> from whatever bytes it wrote for it.
\<close>

fun wire :: "pyval \<Rightarrow> pyval" where
  "wire (PTuple xs) = PList (map wire xs)"
| "wire (PList xs) = PList (map wire xs)"
| "wire (PDict d) = PDict (map (map_prod wire wire) d)"
| "wire (PTag n v) = PTag n (wire v)"
| "wire v = v"

definition reads_back :: "pylib \<Rightarrow> pyval \<Rightarrow> bool" where
  "reads_back lib v \<longleftrightarrow>
     (\<forall>buffer. cbor_dumps lib v = Inr buffer \<longrightarrow> cbor_loads lib buffer = Inr (wire v))"

text \<open>
  An entry of the decoded validators mapping that the loop of \<^verbatim>\<open>parse_from_bytes\<close>
  accepts: its value makes a record and the record passes the check.
\<close>

definition accepted_entry :: "pyval \<times> pyval \<Rightarrow> bool" where
  "accepted_entry entry =
    (case make (snd entry) of
       Inl e \<Rightarrow> False
     | Inr r \<Rightarrow> check_validator_state r = Inr ())"

text \<open>
  How far \<^verbatim>\<open>parse_from_bytes\<close> gets on a buffer: the float it assigns to
  \<^verbatim>\<open>aggregate_local_mean\<close>, the integer it assigns to \<^verbatim>\<open>total_block_claim_count\<close>, and
  the entries it walks once every check of the two scalars has passed; \<open>None\<close> when the
  call fails before that point.
\<close>

definition decoded_aggregate :: "pylib \<Rightarrow> byte list \<Rightarrow> pyfloat option" where
  "decoded_aggregate lib buffer =
    (case cbor_loads lib buffer of
       Inr (PDict d) \<Rightarrow>
         (case map_of d (PStr ''aggregate_local_mean'') of
            Some a \<Rightarrow> (case py_float lib a of Inr f \<Rightarrow> Some f | Inl e \<Rightarrow> None)
          | None \<Rightarrow> None)
     | _ \<Rightarrow> None)"

definition decoded_total :: "pylib \<Rightarrow> byte list \<Rightarrow> int option" where
  "decoded_total lib buffer =
    (case decoded_aggregate lib buffer of
       None \<Rightarrow> None
     | Some f \<Rightarrow>
         (case cbor_loads lib buffer of
            Inr (PDict d) \<Rightarrow>
              (case map_of d (PStr ''total_block_claim_count'') of
                 Some t \<Rightarrow> (case py_int lib t of Inr n \<Rightarrow> Some n | Inl e \<Rightarrow> None)
               | None \<Rightarrow> None)
          | _ \<Rightarrow> None))"

definition decoded_validators :: "pylib \<Rightarrow> byte list \<Rightarrow> (pyval \<times> pyval) list option" where
  "decoded_validators lib buffer =
    (case (decoded_aggregate lib buffer, decoded_total lib buffer) of
       (Some f, Some n) \<Rightarrow>
         (case cbor_loads lib buffer of
            Inr (PDict d) \<Rightarrow>
              (case map_of d (PStr ''_validators'') of
                 Some (PDict vd) \<Rightarrow>
                   if isfinite f \<and> \<not> float_lt_zero f \<and> 0 \<le> n then Some vd else None
               | _ \<Rightarrow> None)
          | _ \<Rightarrow> None)
     | _ \<Rightarrow> None)"

text \<open>
  Sequences of calls. \<open>run_claims\<close> records a list of block claims and stops at the first
  exception. An \<open>operation\<close> is a read or a claim; \<open>state_after\<close> is the object after
  the call, whether it returned or raised.
\<close>

fun run_claims ::
  "pylib \<Rightarrow> ConsensusState \<Rightarrow> (ValidatorInfo \<times> WaitCertificate) list
     \<Rightarrow> (pyexc + unit) \<times> ConsensusState" where
  "run_claims lib s [] = (Inr (), s)"
| "run_claims lib s ((validator_info, wait_certificate) # rest) =
    (case validator_did_claim_block lib s validator_info wait_certificate of
       (Inl e, s') \<Rightarrow> (Inl e, s')
     | (Inr u, s') \<Rightarrow> run_claims lib s' rest)"

datatype operation = Get ValidatorInfo | Claim ValidatorInfo WaitCertificate

fun state_after :: "pylib \<Rightarrow> ConsensusState \<Rightarrow> operation \<Rightarrow> ConsensusState" where
  "state_after lib s (Get validator_info) = snd (get_validator_state s validator_info)"
| "state_after lib s (Claim validator_info wait_certificate) =
     snd (validator_did_claim_block lib s validator_info wait_certificate)"

fun claims_for :: "string \<Rightarrow> operation \<Rightarrow> bool" where
  "claims_for i (Get validator_info) = False"
| "claims_for i (Claim validator_info wait_certificate) = (vi_id validator_info = i)"

text \<open>
  The states a fresh object reaches by reads, block claims and successful parses. A
  validator's signup key is a non-empty string, as its \<^verbatim>\<open>ValidatorInfo\<close> has it.
\<close>

inductive reachable :: "pylib \<Rightarrow> ConsensusState \<Rightarrow> bool" for lib :: pylib where
  reachable_init: "reachable lib init"
| reachable_get:
    "reachable lib s \<Longrightarrow> signup_poet_public_key (signup_info validator_info) \<noteq> []
      \<Longrightarrow> reachable lib (snd (get_validator_state s validator_info))"
| reachable_claim:
    "reachable lib s \<Longrightarrow> signup_poet_public_key (signup_info validator_info) \<noteq> []
      \<Longrightarrow> reachable lib (snd (validator_did_claim_block lib s validator_info wait_certificate))"
| reachable_parse:
    "reachable lib s \<Longrightarrow> parse_from_bytes lib s buffer = (Inr (), s')
      \<Longrightarrow> reachable lib s'"

text \<open>Every stored count is an instance of \<^verbatim>\<open>int\<close>: then \<^verbatim>\<open>+ 1\<close> cannot raise.\<close>

definition counts_are_ints :: "ConsensusState \<Rightarrow> bool" where
  "counts_are_ints s =
    list_all (\<lambda>(i, vs). int_instance (key_block_claim_count vs) \<noteq> None
                 \<and> int_instance (total_block_claim_count vs) \<noteq> None) (validators s)"

section \<open>Example objects and buffers\<close>

text \<open>
  Concrete inputs for the instances below. Each buffer is the CBOR encoding (RFC 8949:
  definite lengths, shortest integer heads, floats in 64 bits) of the dictionary that
  \<open>example_codec\<close> lists beside it.
\<close>

definition validator :: "string \<Rightarrow> string \<Rightarrow> ValidatorInfo" where
  "validator i k = \<lparr>vi_id = i, vi_name = i, signup_info = \<lparr>signup_poet_public_key = k\<rparr>\<rparr>"

definition example_state :: ConsensusState where
  "example_state =
    \<lparr>aggregate_local_mean = Finite (3 / 2), cs_total_block_claim_count = 3,
     validators =
       [(''alice'', \<lparr>key_block_claim_count = PInt 1, poet_public_key = PStr ''A'',
                    total_block_claim_count = PInt 2\<rparr>),
        (''bob'', \<lparr>key_block_claim_count = PInt 1, poet_public_key = PStr ''B'',
                  total_block_claim_count = PInt 1\<rparr>)]\<rparr>"

definition buffer_negative_total :: "byte list" where
  "buffer_negative_total =
    [163, 116, 97, 103, 103, 114, 101, 103, 97, 116, 101, 95, 108, 111, 99, 97, 108, 95,
     109, 101, 97, 110, 251, 63, 240, 0, 0, 0, 0, 0, 0, 119, 116, 111, 116, 97, 108, 95,
     98, 108, 111, 99, 107, 95, 99, 108, 97, 105, 109, 95, 99, 111, 117, 110, 116, 32, 107,
     95, 118, 97, 108, 105, 100, 97, 116, 111, 114, 115, 160]"

definition buffer_bad_second_record :: "byte list" where
  "buffer_bad_second_record =
    [163, 116, 97, 103, 103, 114, 101, 103, 97, 116, 101, 95, 108, 111, 99, 97, 108, 95,
     109, 101, 97, 110, 251, 64, 0, 0, 0, 0, 0, 0, 0, 119, 116, 111, 116, 97, 108, 95, 98,
     108, 111, 99, 107, 95, 99, 108, 97, 105, 109, 95, 99, 111, 117, 110, 116, 2, 107, 95,
     118, 97, 108, 105, 100, 97, 116, 111, 114, 115, 162, 97, 97, 131, 1, 97, 65, 1, 97,
     98, 131, 5, 97, 66, 3]"

definition buffer_infinite_total :: "byte list" where
  "buffer_infinite_total =
    [163, 116, 97, 103, 103, 114, 101, 103, 97, 116, 101, 95, 108, 111, 99, 97, 108, 95,
     109, 101, 97, 110, 251, 191, 240, 0, 0, 0, 0, 0, 0, 119, 116, 111, 116, 97, 108, 95,
     98, 108, 111, 99, 107, 95, 99, 108, 97, 105, 109, 95, 99, 111, 117, 110, 116, 251,
     127, 240, 0, 0, 0, 0, 0, 0, 107, 95, 118, 97, 108, 105, 100, 97, 116, 111, 114, 115,
     160]"

definition buffer_boolean_counts :: "byte list" where
  "buffer_boolean_counts =
    [163, 116, 97, 103, 103, 114, 101, 103, 97, 116, 101, 95, 108, 111, 99, 97, 108, 95,
     109, 101, 97, 110, 251, 0, 0, 0, 0, 0, 0, 0, 0, 119, 116, 111, 116, 97, 108, 95, 98,
     108, 111, 99, 107, 95, 99, 108, 97, 105, 109, 95, 99, 111, 117, 110, 116, 0, 107, 95,
     118, 97, 108, 105, 100, 97, 116, 111, 114, 115, 161, 97, 118, 131, 245, 97, 107, 245]"

definition buffer_two_validators :: "byte list" where
  "buffer_two_validators =
    [163, 116, 97, 103, 103, 114, 101, 103, 97, 116, 101, 95, 108, 111, 99, 97, 108, 95,
     109, 101, 97, 110, 251, 63, 248, 0, 0, 0, 0, 0, 0, 119, 116, 111, 116, 97, 108, 95,
     98, 108, 111, 99, 107, 95, 99, 108, 97, 105, 109, 95, 99, 111, 117, 110, 116, 3, 107,
     95, 118, 97, 108, 105, 100, 97, 116, 111, 114, 115, 162, 101, 97, 108, 105, 99, 101,
     131, 1, 97, 65, 2, 99, 98, 111, 98, 131, 1, 97, 66, 1]"

definition buffer_extra_keys :: "byte list" where
  "buffer_extra_keys =
    [165, 103, 118, 101, 114, 115, 105, 111, 110, 7, 116, 97, 103, 103, 114, 101, 103, 97,
     116, 101, 95, 108, 111, 99, 97, 108, 95, 109, 101, 97, 110, 251, 63, 248, 0, 0, 0, 0,
     0, 0, 119, 116, 111, 116, 97, 108, 95, 98, 108, 111, 99, 107, 95, 99, 108, 97, 105,
     109, 95, 99, 111, 117, 110, 116, 3, 107, 95, 118, 97, 108, 105, 100, 97, 116, 111,
     114, 115, 161, 101, 97, 108, 105, 99, 101, 131, 1, 97, 65, 2, 100, 110, 111, 116, 101,
     97, 120]"

definition buffer_fractional_total :: "byte list" where
  "buffer_fractional_total =
    [163, 116, 97, 103, 103, 114, 101, 103, 97, 116, 101, 95, 108, 111, 99, 97, 108, 95,
     109, 101, 97, 110, 2, 119, 116, 111, 116, 97, 108, 95, 98, 108, 111, 99, 107, 95, 99,
     108, 97, 105, 109, 95, 99, 111, 117, 110, 116, 251, 64, 13, 153, 153, 153, 153, 153,
     154, 107, 95, 118, 97, 108, 105, 100, 97, 116, 111, 114, 115, 161, 101, 97, 108, 105,
     99, 101, 131, 1, 97, 65, 2]"

definition buffer_one_validator :: "byte list" where
  "buffer_one_validator =
    [163, 116, 97, 103, 103, 114, 101, 103, 97, 116, 101, 95, 108, 111, 99, 97, 108, 95,
     109, 101, 97, 110, 251, 63, 248, 0, 0, 0, 0, 0, 0, 119, 116, 111, 116, 97, 108, 95,
     98, 108, 111, 99, 107, 95, 99, 108, 97, 105, 109, 95, 99, 111, 117, 110, 116, 3, 107,
     95, 118, 97, 108, 105, 100, 97, 116, 111, 114, 115, 161, 101, 97, 108, 105, 99, 101,
     131, 1, 97, 65, 2]"

definition toplevel :: "pyval \<Rightarrow> pyval \<Rightarrow> (pyval \<times> pyval) list \<Rightarrow> (pyval \<times> pyval) list" where
  "toplevel a t vd =
    [(PStr ''aggregate_local_mean'', a), (PStr ''total_block_claim_count'', t),
     (PStr ''_validators'', PDict vd)]"

definition example_codec :: "(byte list \<times> pyval) list" where
  "example_codec =
    [(buffer_negative_total, PDict (toplevel (PFloat (Finite 1)) (PInt (- 1)) [])),
     (buffer_bad_second_record,
      PDict (toplevel (PFloat (Finite 2)) (PInt 2)
        [(PStr ''a'', PList [PInt 1, PStr ''A'', PInt 1]),
         (PStr ''b'', PList [PInt 5, PStr ''B'', PInt 3])])),
     (buffer_infinite_total, PDict (toplevel (PFloat (Finite (- 1))) (PFloat PosInf) [])),
     (buffer_boolean_counts,
      PDict (toplevel (PFloat (Finite 0)) (PInt 0)
        [(PStr ''v'', PList [PBool True, PStr ''k'', PBool True])])),
     (buffer_two_validators, wire (self_dict example_state)),
     (buffer_extra_keys,
      PDict ((PStr ''version'', PInt 7)
        # toplevel (PFloat (Finite (3 / 2))) (PInt 3)
            [(PStr ''alice'', PList [PInt 1, PStr ''A'', PInt 2])]
        @ [(PStr ''note'', PStr ''x'')])),
     (buffer_fractional_total,
      PDict (toplevel (PInt 2) (PFloat (Finite (4165829655317709 / 1125899906842624)))
        [(PStr ''alice'', PList [PInt 1, PStr ''A'', PInt 2])])),
     (buffer_one_validator,
      PDict (toplevel (PFloat (Finite (3 / 2))) (PInt 3)
        [(PStr ''alice'', PList [PInt 1, PStr ''A'', PInt 2])]))]"

text \<open>
  A library for the examples: the codec on the buffers above (any other buffer does not
  decode, and only \<open>example_state\<close> is written), no text parses, and rounding is exact,
  which it is on the numbers of the examples.
\<close>

definition example_lib :: pylib where
  "example_lib =
    \<lparr>cbor_loads =
       (\<lambda>buffer. case map_of example_codec buffer of
                    None \<Rightarrow> Inl (ValueError BuiltinValueError)
                  | Some v \<Rightarrow> Inr v),
     cbor_dumps =
       (\<lambda>v. if v = self_dict example_state then Inr buffer_two_validators
             else Inl (ValueError BuiltinValueError)),
     float_of_text = (\<lambda>v. None),
     int_of_text = (\<lambda>v. None),
     str_of = (\<lambda>v. []),
     round_float = Finite\<rparr>"

section \<open>Rounding to binary64\<close>

text \<open>
  The rounding of IEEE 754 binary64 arithmetic, which Python's float addition uses: to the
  nearest value with a 53-bit significand (or the nearest multiple of \<open>2 powi (- 1074)\<close> below
  the normal range), ties to the even significand, and to an infinity when the rounded
  magnitude reaches \<open>2 ^ 1024\<close>. \<open>floor_log2 a\<close> is the exponent of the leading bit
  of a positive \<open>a\<close>.
\<close>

definition floor_log2 :: "rat \<Rightarrow> int" where
  "floor_log2 a =
    (if 1 \<le> a then bitlen \<lfloor>a\<rfloor> - 1 else - bitlen (\<lceil>1 / a\<rceil> - 1))"

definition round_half_even :: "rat \<Rightarrow> int" where
  "round_half_even x =
    (let m = \<lfloor>x\<rfloor>; r = x - of_int m
     in if r < 1 / 2 then m else if 1 / 2 < r then m + 1 else if even m then m else m + 1)"

definition round_binary64 :: "rat \<Rightarrow> pyfloat" where
  "round_binary64 q =
    (if q = 0 then Finite 0
     else
       (let a = \<bar>q\<bar>;
            e = max (floor_log2 a) (- 1022);
            u = 2 powi (e - 52);
            r = of_int (round_half_even (a / u)) * u
        in if 2 powi 1024 \<le> r then (if q < 0 then NegInf else PosInf)
           else Finite (if q < 0 then - r else r)))"

text \<open>
  The error of one rounding of a non-negative value \<open>q\<close> to a finite float is at most
  \<open>unit_roundoff * q + half_least_subnormal\<close>: half the spacing of the floats around
  \<open>q\<close>, which is at most \<open>2 powi (- 53) * q\<close> in the normal range and
  \<open>2 powi (- 1075)\<close> below it. \<open>sum_error_bound n S\<close> bounds the error that \<open>n\<close>
  rounded additions accumulate on terms of exact sum \<open>S\<close>.
\<close>

definition unit_roundoff :: rat where
  "unit_roundoff = 2 powi (- 53)"

definition half_least_subnormal :: rat where
  "half_least_subnormal = 2 powi (- 1075)"

definition sum_error_bound :: "nat \<Rightarrow> rat \<Rightarrow> rat" where
  "sum_error_bound n S =
    of_nat n * (1 + unit_roundoff) ^ n * (unit_roundoff * S + half_least_subnormal)"

text \<open>
  The library of the examples with binary64 rounding, and three floats: the floats
  \<^verbatim>\<open>0.1\<close> and \<^verbatim>\<open>0.2\<close> (the binary64 values nearest to one tenth and two tenths) and
  the float \<open>2 ^ 1023\<close>.
\<close>

definition binary64_lib :: pylib where
  "binary64_lib = example_lib\<lparr>round_float := round_binary64\<rparr>"

definition one_tenth :: rat where
  "one_tenth = 3602879701896397 / 36028797018963968"

definition two_tenths :: rat where
  "two_tenths = 3602879701896397 / 18014398509481984"

definition largest_power :: rat where
  "largest_power = 2 ^ 1023"

section \<open>Lemmas\<close>

subsection \<open>Dictionaries and records\<close>

lemmas buffer_defs =
  buffer_negative_total_def buffer_bad_second_record_def buffer_infinite_total_def
  buffer_boolean_counts_def buffer_two_validators_def buffer_extra_keys_def
  buffer_fractional_total_def buffer_one_validator_def

lemma list_all_update:
  "list_all P al \<Longrightarrow> P (k, v) \<Longrightarrow> list_all P (AList.update k v al)"
  by (induction al) auto

lemma in_set_update:
  "(k', v') \<in> set (AList.update k v al) \<Longrightarrow> (k', v') = (k, v) \<or> (k', v') \<in> set al"
  by (induction al) (auto split: if_splits)

lemma update_fresh:
  "k \<notin> fst ` set al \<Longrightarrow> AList.update k v al = al @ [(k, v)]"
  by (induction al) auto

lemma check_iff_invariant:
  "check_validator_state vs = Inr () \<longleftrightarrow> record_invariant vs"
  by (auto simp: check_validator_state_def record_invariant_def
      split: option.splits pyval.splits)

lemma make_iff:
  "make v = Inr r \<longleftrightarrow>
     py_iter v = Some [key_block_claim_count r, poet_public_key r, total_block_claim_count r]"
  by (auto simp: make_def split: option.splits list.splits)

lemma py_add1_int_instance:
  "int_instance v = Some n \<Longrightarrow> py_add1 lib v = Inr (PInt (n + 1))"
  by (cases v) (auto simp: py_add1_def)

subsection \<open>Reading a record\<close>

lemma get_present:
  "map_of (validators s) (vi_id vi) = Some r \<Longrightarrow> get_validator_state s vi = (r, s)"
  by (simp add: get_validator_state_def)

lemma get_absent:
  "map_of (validators s) (vi_id vi) = None \<Longrightarrow>
     get_validator_state s vi =
       (default_state vi,
        s\<lparr>validators := AList.update (vi_id vi) (default_state vi) (validators s)\<rparr>)"
  by (simp add: get_validator_state_def default_state_def Let_def)

lemma get_keeps_record:
  assumes "map_of (validators s) i = Some r"
  shows "map_of (validators (snd (get_validator_state s vi))) i = Some r"
proof (cases "map_of (validators s) (vi_id vi)")
  case None
  then have "vi_id vi \<noteq> i" using assms by auto
  then show ?thesis using None assms by (simp add: get_absent update_conv')
next
  case (Some r')
  then show ?thesis using assms by (simp add: get_present)
qed

subsection \<open>Recording a claim\<close>

lemma claim_existing:
  assumes "map_of (validators s) (vi_id vi) = Some r"
    and "int_instance (key_block_claim_count r) = Some k"
    and "int_instance (total_block_claim_count r) = Some t"
  shows "validator_did_claim_block lib s vi wc =
      (Inr (),
       s\<lparr>aggregate_local_mean := float_add lib (aggregate_local_mean s) (local_mean wc),
         cs_total_block_claim_count := cs_total_block_claim_count s + 1,
         validators :=
           AList.update (vi_id vi)
             \<lparr>key_block_claim_count =
                (if PStr (signup_poet_public_key (signup_info vi)) = poet_public_key r
                 then PInt (k + 1) else PInt 1),
              poet_public_key = PStr (signup_poet_public_key (signup_info vi)),
              total_block_claim_count = PInt (t + 1)\<rparr>
             (validators s)\<rparr>)"
  using assms
  by (simp add: validator_did_claim_block_def Let_def get_present py_add1_int_instance)

lemma claim_new:
  assumes "map_of (validators s) (vi_id vi) = None"
  shows "validator_did_claim_block lib s vi wc =
      (Inr (),
       s\<lparr>aggregate_local_mean := float_add lib (aggregate_local_mean s) (local_mean wc),
         cs_total_block_claim_count := cs_total_block_claim_count s + 1,
         validators :=
           AList.update (vi_id vi)
             \<lparr>key_block_claim_count = PInt 1,
              poet_public_key = PStr (signup_poet_public_key (signup_info vi)),
              total_block_claim_count = PInt 1\<rparr>
             (validators s)\<rparr>)"
  using assms
  by (simp add: validator_did_claim_block_def Let_def get_absent default_state_def
      py_add1_def)

lemma claim_keeps_record:
  assumes "map_of (validators s) i = Some r" and "vi_id vi \<noteq> i"
  shows "map_of (validators (snd (validator_did_claim_block lib s vi wc))) i = Some r"
proof -
  define s2 where "s2 = s\<lparr>aggregate_local_mean :=
        float_add lib (aggregate_local_mean s) (local_mean wc),
      cs_total_block_claim_count := cs_total_block_claim_count s + 1\<rparr>"
  have "map_of (validators s2) i = Some r" using assms by (simp add: s2_def)
  then have "map_of (validators (snd (get_validator_state s2 vi))) i = Some r"
    by (rule get_keeps_record)
  then show ?thesis using assms(2)
    by (auto simp: validator_did_claim_block_def Let_def s2_def update_conv'
        split: prod.splits sum.splits)
qed

lemma state_after_keeps_record:
  assumes "map_of (validators s) i = Some r" and "\<not> claims_for i op"
  shows "map_of (validators (state_after lib s op)) i = Some r"
  using assms by (cases op) (auto simp: get_keeps_record claim_keeps_record)

lemma foldl_state_after_keeps_record:
  assumes "map_of (validators s) i = Some r" and "\<forall>op \<in> set ops. \<not> claims_for i op"
  shows "map_of (validators (foldl (state_after lib) s ops)) i = Some r"
  using assms by (induction ops arbitrary: s) (auto simp: state_after_keeps_record)

lemma claim_succeeds:
  assumes "counts_are_ints s"
  shows "\<exists>s'. validator_did_claim_block lib s vi wc = (Inr (), s')
      \<and> aggregate_local_mean s' = float_add lib (aggregate_local_mean s) (local_mean wc)
      \<and> cs_total_block_claim_count s' = cs_total_block_claim_count s + 1
      \<and> counts_are_ints s'"
proof (cases "map_of (validators s) (vi_id vi)")
  case None
  show ?thesis using assms
    by (simp add: claim_new [OF None] counts_are_ints_def list_all_update)
next
  case (Some r)
  then have "(vi_id vi, r) \<in> set (validators s)" by (rule map_of_SomeD)
  with assms obtain k t where
    "int_instance (key_block_claim_count r) = Some k"
    "int_instance (total_block_claim_count r) = Some t"
    by (auto simp: counts_are_ints_def list_all_iff)
  from claim_existing [OF Some this] show ?thesis using assms
    by (simp add: counts_are_ints_def list_all_update)
qed

lemma run_claims_accounting:
  assumes "counts_are_ints s"
  shows "\<exists>s'. run_claims lib s cs = (Inr (), s')
      \<and> aggregate_local_mean s' =
          foldl (float_add lib) (aggregate_local_mean s) (map (\<lambda>c. local_mean (snd c)) cs)
      \<and> cs_total_block_claim_count s' = cs_total_block_claim_count s + int (length cs)"
  using assms
proof (induction cs arbitrary: s)
  case Nil
  then show ?case by simp
next
  case (Cons c cs)
  obtain vi wc where c: "c = (vi, wc)" by (cases c)
  from claim_succeeds [OF Cons.prems, of lib vi wc] obtain s1 where
    s1: "validator_did_claim_block lib s vi wc = (Inr (), s1)"
      "aggregate_local_mean s1 = float_add lib (aggregate_local_mean s) (local_mean wc)"
      "cs_total_block_claim_count s1 = cs_total_block_claim_count s + 1"
      "counts_are_ints s1"
    by blast
  from Cons.IH [OF s1(4)] show ?case
    by (auto simp: c s1)
qed

lemma foldl_float_add_exact:
  assumes "\<forall>k \<le> length qs.
      round_float lib (a + sum_list (take k qs)) = Finite (a + sum_list (take k qs))"
  shows "foldl (float_add lib) (Finite a) (map Finite qs) = Finite (a + sum_list qs)"
  using assms
proof (induction qs arbitrary: a)
  case Nil
  then show ?case by simp
next
  case (Cons q qs)
  have "Suc 0 \<le> length (q # qs)" by simp
  with Cons.prems have "round_float lib (a + sum_list (take (Suc 0) (q # qs)))
      = Finite (a + sum_list (take (Suc 0) (q # qs)))"
    by blast
  then have first: "round_float lib (a + q) = Finite (a + q)" by simp
  have rest: "\<forall>k \<le> length qs.
      round_float lib ((a + q) + sum_list (take k qs)) = Finite ((a + q) + sum_list (take k qs))"
  proof (intro allI impI)
    fix k assume "k \<le> length qs"
    then have "Suc k \<le> length (q # qs)" by simp
    with Cons.prems have "round_float lib (a + sum_list (take (Suc k) (q # qs)))
      = Finite (a + sum_list (take (Suc k) (q # qs)))"
      by blast
    then show "round_float lib ((a + q) + sum_list (take k qs))
      = Finite ((a + q) + sum_list (take k qs))"
      by (simp only: take_Suc_Cons sum_list.Cons add.assoc)
  qed
  have "foldl (float_add lib) (Finite a) (map Finite (q # qs))
      = foldl (float_add lib) (Finite (a + q)) (map Finite qs)"
    by (simp add: first)
  also have "\<dots> = Finite ((a + q) + sum_list qs)" by (rule Cons.IH [OF rest])
  finally show ?case by (simp only: sum_list.Cons add.assoc)
qed

subsection \<open>The loop over the decoded validators\<close>

lemma parse_validators_scalars:
  "parse_validators lib vd s = (res, s') \<Longrightarrow>
     aggregate_local_mean s' = aggregate_local_mean s
     \<and> cs_total_block_claim_count s' = cs_total_block_claim_count s"
proof (induction vd arbitrary: s)
  case Nil
  then show ?case by simp
next
  case (Cons entry vd)
  obtain key v where entry: "entry = (key, v)" by (cases entry)
  from Cons.prems show ?case
    by (auto simp: entry split: sum.splits dest!: Cons.IH)
qed

lemma parse_validators_invariant:
  assumes "parse_validators lib vd s = (res, s')"
    and "list_all (\<lambda>(i, r). record_invariant r) (validators s)"
  shows "list_all (\<lambda>(i, r). record_invariant r) (validators s')"
  using assms
proof (induction vd arbitrary: s)
  case Nil
  then show ?case by simp
next
  case (Cons entry vd)
  obtain key v where entry: "entry = (key, v)" by (cases entry)
  show ?case
  proof (cases "make v")
    case (Inl e)
    with Cons.prems show ?thesis by (simp add: entry)
  next
    case (Inr r)
    show ?thesis
    proof (cases "check_validator_state r")
      case (Inl e)
      with Cons.prems Inr show ?thesis by (simp add: entry)
    next
      case ok: (Inr u')
      then have "record_invariant r" by (simp add: check_iff_invariant [symmetric])
      with Cons.prems(2) have
        "list_all (\<lambda>(i, r). record_invariant r)
           (validators (s\<lparr>validators := AList.update (py_str lib key) r (validators s)\<rparr>))"
        by (simp add: list_all_update)
      moreover from Cons.prems(1) Inr ok have
        "parse_validators lib vd
           (s\<lparr>validators := AList.update (py_str lib key) r (validators s)\<rparr>) = (res, s')"
        by (simp add: entry)
      ultimately show ?thesis by (rule Cons.IH [rotated])
    qed
  qed
qed

lemma parse_validators_failure:
  "parse_validators lib vd s = (Inl e, s') \<Longrightarrow>
     \<exists>k<length vd. list_all accepted_entry (take k vd) \<and> \<not> accepted_entry (vd ! k)
       \<and> parse_validators lib (take k vd) s = (Inr (), s')"
proof (induction vd arbitrary: s)
  case Nil
  then show ?case by simp
next
  case (Cons entry vd)
  obtain key v where entry: "entry = (key, v)" by (cases entry)
  show ?case
  proof (cases "accepted_entry entry")
    case False
    with Cons.prems have "parse_validators lib (take 0 (entry # vd)) s = (Inr (), s')"
      by (auto simp: entry accepted_entry_def split: sum.splits)
    with False show ?thesis by (intro exI [of _ 0]) simp
  next
    case True
    then obtain r where r: "make v = Inr r" "check_validator_state r = Inr ()"
      by (auto simp: entry accepted_entry_def split: sum.splits)
    with Cons.prems have
      "parse_validators lib vd
         (s\<lparr>validators := AList.update (py_str lib key) r (validators s)\<rparr>) = (Inl e, s')"
      by (simp add: entry)
    from Cons.IH [OF this] obtain k where k: "k < length vd"
      "list_all accepted_entry (take k vd)" "\<not> accepted_entry (vd ! k)"
      "parse_validators lib (take k vd)
         (s\<lparr>validators := AList.update (py_str lib key) r (validators s)\<rparr>) = (Inr (), s')"
      by blast
    from k(4) r have
      "parse_validators lib (take (Suc k) (entry # vd)) s = (Inr (), s')"
      by (simp add: entry)
    with k(1-3) True show ?thesis by (intro exI [of _ "Suc k"]) simp
  qed
qed

lemma parse_validators_accepts:
  "parse_validators lib vd s = (Inr u, s') \<Longrightarrow>
     list_all (\<lambda>(key, v). \<exists>r. make v = Inr r \<and> record_invariant r) vd"
proof (induction vd arbitrary: s)
  case Nil
  then show ?case by simp
next
  case (Cons entry vd)
  obtain key v where entry: "entry = (key, v)" by (cases entry)
  from Cons.prems obtain r where r: "make v = Inr r" "check_validator_state r = Inr ()"
    and rest: "parse_validators lib vd
      (s\<lparr>validators := AList.update (py_str lib key) r (validators s)\<rparr>) = (Inr u, s')"
    by (auto simp: entry split: sum.splits)
  from r(2) have "record_invariant r" by (simp add: check_iff_invariant)
  with r(1) Cons.IH [OF rest] show ?case by (auto simp: entry)
qed

lemma parse_validators_origin:
  assumes "parse_validators lib vd s = (res, s')" and "(i, r) \<in> set (validators s')"
  shows "(i, r) \<in> set (validators s)
      \<or> (\<exists>(key, v) \<in> set vd. i = py_str lib key \<and> make v = Inr r)"
  using assms
proof (induction vd arbitrary: s)
  case Nil
  then show ?case by simp
next
  case (Cons entry vd)
  obtain key v where entry: "entry = (key, v)" by (cases entry)
  show ?case
  proof (cases "make v")
    case (Inl e)
    with Cons.prems show ?thesis by (simp add: entry)
  next
    case (Inr r')
    show ?thesis
    proof (cases "check_validator_state r'")
      case (Inl e)
      with Cons.prems Inr show ?thesis by (simp add: entry)
    next
      case ok: (Inr u')
      with Cons.prems(1) Inr have
        "parse_validators lib vd
           (s\<lparr>validators := AList.update (py_str lib key) r' (validators s)\<rparr>) = (res, s')"
        by (simp add: entry)
      from Cons.IH [OF this Cons.prems(2)] show ?thesis
        using Inr by (auto simp: entry dest: in_set_update)
    qed
  qed
qed

lemma parse_validators_roundtrip:
  assumes "list_all (\<lambda>(i, vs). record_invariant vs) xs"
    and "distinct (map fst (validators s @ xs))"
  shows "parse_validators lib
      (map (\<lambda>(k, vs).
              (PStr k,
               PList [key_block_claim_count vs, poet_public_key vs,
                      total_block_claim_count vs])) xs) s
    = (Inr (), s\<lparr>validators := validators s @ xs\<rparr>)"
  using assms
proof (induction xs arbitrary: s)
  case Nil
  then show ?case by simp
next
  case (Cons x xs)
  obtain k vs where x: "x = (k, vs)" by (cases x)
  from Cons.prems(1) have inv: "record_invariant vs" and rest:
    "list_all (\<lambda>(i, vs). record_invariant vs) xs"
    by (simp_all add: x)
  have made: "make (PList [key_block_claim_count vs, poet_public_key vs,
      total_block_claim_count vs]) = Inr vs"
    by (simp add: make_iff py_iter_def)
  from Cons.prems(2) have fresh: "k \<notin> fst ` set (validators s)"
    by (auto simp: x)
  let ?s1 = "s\<lparr>validators := validators s @ [(k, vs)]\<rparr>"
  from Cons.prems(2) have keys: "distinct (map fst (validators ?s1 @ xs))"
    by (simp add: x)
  have checked: "check_validator_state vs = Inr ()"
    using inv by (simp add: check_iff_invariant)
  from Cons.IH [OF rest keys] show ?case
    by (simp add: x made checked update_fresh [OF fresh] py_str_def)
qed

subsection \<open>The body of the parse\<close>

lemma parse_from_bytes_success:
  "parse_from_bytes lib s buffer = (Inr u, s') \<longleftrightarrow> parse_body lib s buffer = (Inr u, s')"
  by (auto simp: parse_from_bytes_def split: prod.splits sum.splits if_splits)

lemma parse_from_bytes_failure:
  "parse_from_bytes lib s buffer = (Inl e, s') \<Longrightarrow> \<exists>e'. parse_body lib s buffer = (Inl e', s')"
  by (auto simp: parse_from_bytes_def split: prod.splits sum.splits if_splits)

lemma parse_body_valid_toplevel:
  assumes "cbor_loads lib buffer = Inr (PDict d)"
    and "map_of d (PStr ''aggregate_local_mean'') = Some a" and "py_float lib a = Inr f"
    and "map_of d (PStr ''total_block_claim_count'') = Some t" and "py_int lib t = Inr n"
    and "map_of d (PStr ''_validators'') = Some (PDict vd)"
    and "isfinite f" and "\<not> float_lt_zero f" and "0 \<le> n"
  shows "parse_body lib s buffer =
      parse_validators lib vd
        (s\<lparr>aggregate_local_mean := f, cs_total_block_claim_count := n, validators := []\<rparr>)"
  using assms by (simp add: parse_body_def subscript_def Let_def)

lemma parse_body_success:
  assumes "parse_body lib s buffer = (Inr u, s')"
  shows "\<exists>d a f t n vd.
      cbor_loads lib buffer = Inr (PDict d)
      \<and> map_of d (PStr ''aggregate_local_mean'') = Some a \<and> py_float lib a = Inr f
      \<and> map_of d (PStr ''total_block_claim_count'') = Some t \<and> py_int lib t = Inr n
      \<and> map_of d (PStr ''_validators'') = Some (PDict vd)
      \<and> isfinite f \<and> \<not> float_lt_zero f \<and> 0 \<le> n
      \<and> parse_validators lib vd
           (s\<lparr>aggregate_local_mean := f, cs_total_block_claim_count := n, validators := []\<rparr>)
          = (Inr u, s')"
proof -
  from assms obtain d where d: "cbor_loads lib buffer = Inr (PDict d)"
    by (auto simp: parse_body_def Let_def split: sum.splits pyval.splits)
  from assms d obtain a where a: "map_of d (PStr ''aggregate_local_mean'') = Some a"
    by (auto simp: parse_body_def subscript_def Let_def split: option.splits)
  from assms d a obtain f where f: "py_float lib a = Inr f"
    by (auto simp: parse_body_def subscript_def Let_def split: sum.splits)
  from assms d a f obtain t where t: "map_of d (PStr ''total_block_claim_count'') = Some t"
    by (auto simp: parse_body_def subscript_def Let_def split: option.splits)
  from assms d a f t obtain n where n: "py_int lib t = Inr n"
    by (auto simp: parse_body_def subscript_def Let_def split: sum.splits)
  from assms d a f t n obtain vals where vals: "map_of d (PStr ''_validators'') = Some vals"
    by (auto simp: parse_body_def subscript_def Let_def split: option.splits)
  from assms d a f t n vals have ok: "isfinite f" "\<not> float_lt_zero f" "0 \<le> n"
    by (auto simp: parse_body_def subscript_def Let_def split: if_splits)
  from assms d a f t n vals ok obtain vd where vd: "vals = PDict vd"
    by (auto simp: parse_body_def subscript_def Let_def split: pyval.splits)
  from assms d a f t n vals ok vd have
    "parse_validators lib vd
       (s\<lparr>aggregate_local_mean := f, cs_total_block_claim_count := n, validators := []\<rparr>)
      = (Inr u, s')"
    by (simp add: parse_body_def subscript_def Let_def)
  with d a f t n vals ok vd show ?thesis by blast
qed

subsection \<open>The stages of the parse\<close>

lemma decoded_aggregate_Some:
  "decoded_aggregate lib buffer = Some f \<longleftrightarrow>
     (\<exists>d a. cbor_loads lib buffer = Inr (PDict d)
        \<and> map_of d (PStr ''aggregate_local_mean'') = Some a \<and> py_float lib a = Inr f)"
  by (auto simp: decoded_aggregate_def split: sum.splits pyval.splits option.splits)

lemma decoded_total_Some:
  "decoded_total lib buffer = Some n \<longleftrightarrow>
     (\<exists>d t f. cbor_loads lib buffer = Inr (PDict d) \<and> decoded_aggregate lib buffer = Some f
        \<and> map_of d (PStr ''total_block_claim_count'') = Some t \<and> py_int lib t = Inr n)"
  by (auto simp: decoded_total_def split: sum.splits pyval.splits option.splits)

lemma decoded_validators_Some:
  "decoded_validators lib buffer = Some vd \<longleftrightarrow>
     (\<exists>d f n. cbor_loads lib buffer = Inr (PDict d) \<and> decoded_aggregate lib buffer = Some f
        \<and> decoded_total lib buffer = Some n
        \<and> map_of d (PStr ''_validators'') = Some (PDict vd)
        \<and> isfinite f \<and> \<not> float_lt_zero f \<and> 0 \<le> n)"
  by (auto simp: decoded_validators_def split: sum.splits pyval.splits option.splits)

lemma parse_body_no_aggregate:
  assumes "decoded_aggregate lib buffer = None"
  shows "\<exists>e. parse_body lib s buffer = (Inl e, s)"
  using assms
  by (auto simp: parse_body_def decoded_aggregate_def subscript_def
      split: sum.splits pyval.splits option.splits)

lemma parse_body_no_total:
  assumes "decoded_aggregate lib buffer = Some f" and "decoded_total lib buffer = None"
  shows "\<exists>e. parse_body lib s buffer = (Inl e, s\<lparr>aggregate_local_mean := f\<rparr>)"
proof -
  from assms(1) obtain d a where d: "cbor_loads lib buffer = Inr (PDict d)"
    "map_of d (PStr ''aggregate_local_mean'') = Some a" "py_float lib a = Inr f"
    by (auto simp: decoded_aggregate_Some)
  with assms show ?thesis
    by (auto simp: parse_body_def decoded_total_def subscript_def Let_def
        split: sum.splits option.splits)
qed

lemma parse_body_no_validators:
  assumes "decoded_aggregate lib buffer = Some f" and "decoded_total lib buffer = Some n"
    and "decoded_validators lib buffer = None"
  shows "\<exists>e. parse_body lib s buffer =
      (Inl e, s\<lparr>aggregate_local_mean := f, cs_total_block_claim_count := n\<rparr>)"
proof -
  from assms(1) obtain d a where d: "cbor_loads lib buffer = Inr (PDict d)"
    "map_of d (PStr ''aggregate_local_mean'') = Some a" "py_float lib a = Inr f"
    by (auto simp: decoded_aggregate_Some)
  from assms(2) d(1) obtain t where t:
    "map_of d (PStr ''total_block_claim_count'') = Some t" "py_int lib t = Inr n"
    by (auto simp: decoded_total_Some)
  from assms d t show ?thesis
    by (auto simp: parse_body_def decoded_validators_def subscript_def Let_def
        split: option.splits pyval.splits if_splits)
qed

lemma parse_body_validators:
  assumes "decoded_validators lib buffer = Some vd"
  shows "\<exists>f n. decoded_aggregate lib buffer = Some f \<and> decoded_total lib buffer = Some n
    \<and> parse_body lib s buffer =
      parse_validators lib vd
        (s\<lparr>aggregate_local_mean := f, cs_total_block_claim_count := n, validators := []\<rparr>)"
proof -
  from assms obtain d f n where d: "cbor_loads lib buffer = Inr (PDict d)"
    "decoded_aggregate lib buffer = Some f" "decoded_total lib buffer = Some n"
    "map_of d (PStr ''_validators'') = Some (PDict vd)"
    "isfinite f" "\<not> float_lt_zero f" "0 \<le> n"
    by (auto simp: decoded_validators_Some)
  from d(1,2) obtain a where a:
    "map_of d (PStr ''aggregate_local_mean'') = Some a" "py_float lib a = Inr f"
    by (auto simp: decoded_aggregate_Some)
  from d(1,3) obtain t where t:
    "map_of d (PStr ''total_block_claim_count'') = Some t" "py_int lib t = Inr n"
    by (auto simp: decoded_total_Some)
  from parse_body_valid_toplevel [OF d(1) a t d(4-7)] d(2,3) show ?thesis by blast
qed

lemma parse_validators_ok:
  "list_all (\<lambda>(key, v). \<exists>r. make v = Inr r \<and> record_invariant r) vd \<Longrightarrow>
     \<exists>s'. parse_validators lib vd s = (Inr (), s')"
proof (induction vd arbitrary: s)
  case Nil
  then show ?case by simp
next
  case (Cons entry vd)
  obtain key v where entry: "entry = (key, v)" by (cases entry)
  from Cons.prems obtain r where r: "make v = Inr r" "record_invariant r"
    and rest: "list_all (\<lambda>(key, v). \<exists>r. make v = Inr r \<and> record_invariant r) vd"
    by (auto simp: entry)
  from r(2) have "check_validator_state r = Inr ()" by (simp add: check_iff_invariant)
  with r(1) Cons.IH [OF rest] show ?case by (simp add: entry)
qed

lemma parse_validators_keys:
  "parse_validators lib vd s = (Inr u, s') \<Longrightarrow>
     fst ` set (validators s') =
       fst ` set (validators s) \<union> (\<lambda>(key, v). py_str lib key) ` set vd"
proof (induction vd arbitrary: s)
  case Nil
  then show ?case by simp
next
  case (Cons entry vd)
  obtain key v where entry: "entry = (key, v)" by (cases entry)
  from Cons.prems obtain r where
    rest: "parse_validators lib vd
      (s\<lparr>validators := AList.update (py_str lib key) r (validators s)\<rparr>) = (Inr u, s')"
    by (auto simp: entry split: sum.splits)
  from Cons.IH [OF rest] show ?case by (auto simp: entry dom_update)
qed

lemma parse_failure_effect:
  assumes "parse_body lib s buffer = (Inl e, s')"
  shows "aggregate_local_mean s' =
      (case decoded_aggregate lib buffer of None \<Rightarrow> aggregate_local_mean s | Some f \<Rightarrow> f)
    \<and> cs_total_block_claim_count s' =
      (case decoded_total lib buffer of None \<Rightarrow> cs_total_block_claim_count s | Some n \<Rightarrow> n)
    \<and> (case decoded_validators lib buffer of
         None \<Rightarrow> validators s' = validators s
       | Some vd \<Rightarrow>
           \<exists>k<length vd. list_all accepted_entry (take k vd) \<and> \<not> accepted_entry (vd ! k)
             \<and> parse_validators lib (take k vd) (s'\<lparr>validators := []\<rparr>) = (Inr (), s'))
    \<and> (decoded_aggregate lib buffer = None \<longrightarrow> s' = s)"
proof (cases "decoded_aggregate lib buffer")
  case None
  then have "decoded_total lib buffer = None" "decoded_validators lib buffer = None"
    by (simp_all add: decoded_total_def decoded_validators_def)
  with None parse_body_no_aggregate [OF None, of s] assms show ?thesis by auto
next
  case agg: (Some f)
  show ?thesis
  proof (cases "decoded_total lib buffer")
    case None
    then have "decoded_validators lib buffer = None"
      by (simp add: decoded_validators_def agg)
    with agg None parse_body_no_total [OF agg None, of s] assms show ?thesis by auto
  next
    case tot: (Some n)
    show ?thesis
    proof (cases "decoded_validators lib buffer")
      case None
      with agg tot parse_body_no_validators [OF agg tot None, of s] assms show ?thesis
        by auto
    next
      case (Some vd)
      from parse_body_validators [OF Some, of s] agg tot assms have loop:
        "parse_validators lib vd
           (s\<lparr>aggregate_local_mean := f, cs_total_block_claim_count := n, validators := []\<rparr>)
          = (Inl e, s')"
        by auto
      from parse_validators_scalars [OF loop] have scalars:
        "aggregate_local_mean s' = f" "cs_total_block_claim_count s' = n"
        by simp_all
      then have start:
        "s\<lparr>aggregate_local_mean := f, cs_total_block_claim_count := n, validators := []\<rparr>
          = s'\<lparr>validators := []\<rparr>"
        by (cases s, cases s') simp
      from parse_validators_failure [OF loop] obtain k where "k < length vd"
        "list_all accepted_entry (take k vd)" "\<not> accepted_entry (vd ! k)"
        "parse_validators lib (take k vd) (s'\<lparr>validators := []\<rparr>) = (Inr (), s')"
        unfolding start by blast
      with agg tot Some scalars show ?thesis by auto
    qed
  qed
qed

lemma trunc_toward_zero_bounds:
  "\<bar>of_int (trunc_toward_zero q)\<bar> \<le> \<bar>q\<bar> \<and> \<bar>q - of_int (trunc_toward_zero q)\<bar> < 1"
  unfolding trunc_toward_zero_def by (auto; linarith)

lemma parse_validators_caught:
  "parse_validators lib vd s = (Inl e, s') \<Longrightarrow> caught e"
proof (induction vd arbitrary: s)
  case Nil
  then show ?case by simp
next
  case (Cons entry vd)
  obtain key v where entry: "entry = (key, v)" by (cases entry)
  from Cons.prems show ?case
    by (auto simp: entry make_def check_validator_state_def
        split: sum.splits option.splits list.splits pyval.splits if_splits dest: Cons.IH)
qed

lemma py_float_raises: "py_float lib v = Inl e \<Longrightarrow> caught e \<or> e = OverflowError"
  by (auto simp: py_float_def split: pyval.splits pyfloat.splits option.splits)

lemma py_int_raises: "py_int lib v = Inl e \<Longrightarrow> caught e \<or> e = OverflowError"
  by (auto simp: py_int_def split: pyval.splits pyfloat.splits option.splits)

lemma parse_body_raises:
  assumes "parse_body lib s buffer = (Inl e, s')" and "cbor_loads lib buffer = Inr v"
  shows "caught e \<or> e = OverflowError"
proof (cases v)
  case (PDict d)
  show ?thesis
  proof (cases "map_of d (PStr ''aggregate_local_mean'')")
    case None
    with assms PDict show ?thesis by (auto simp: parse_body_def subscript_def)
  next
    case a: (Some a)
    show ?thesis
    proof (cases "py_float lib a")
      case (Inl e')
      with assms PDict a py_float_raises [OF Inl] show ?thesis
        by (auto simp: parse_body_def subscript_def)
    next
      case f: (Inr f)
      show ?thesis
      proof (cases "map_of d (PStr ''total_block_claim_count'')")
        case None
        with assms PDict a f show ?thesis by (auto simp: parse_body_def subscript_def Let_def)
      next
        case t: (Some t)
        show ?thesis
        proof (cases "py_int lib t")
          case (Inl e')
          with assms PDict a f t py_int_raises [OF Inl] show ?thesis
            by (auto simp: parse_body_def subscript_def Let_def)
        next
          case n: (Inr n)
          from assms PDict a f t n show ?thesis
            by (auto simp: parse_body_def subscript_def Let_def
                split: option.splits if_splits pyval.splits dest: parse_validators_caught)
        qed
      qed
    qed
  qed
qed (use assms in \<open>auto simp: parse_body_def\<close>)

lemma parse_from_bytes_raises:
  assumes "parse_from_bytes lib s buffer = (Inl e, s')" and "cbor_loads lib buffer = Inr v"
  shows "(\<exists>c. e = ValueError (ErrorParsing c)) \<or> e = OverflowError"
proof -
  from assms(1) obtain e0 where body: "parse_body lib s buffer = (Inl e0, s')"
    and e: "e = (if caught e0 then ValueError (ErrorParsing e0) else e0)"
    by (auto simp: parse_from_bytes_def split: prod.splits sum.splits if_splits)
  from parse_body_raises [OF body assms(2)] e show ?thesis by auto
qed

subsection \<open>The dictionary of a valid state through the codec\<close>

lemma wire_int_instance: "int_instance v = Some n \<Longrightarrow> wire v = v"
  by (cases v) simp_all

lemma wire_record:
  assumes "record_invariant vs"
  shows "wire (validator_state_tuple vs) =
      PList [key_block_claim_count vs, poet_public_key vs, total_block_claim_count vs]"
proof -
  from assms obtain k p t where
    "int_instance (key_block_claim_count vs) = Some k" "poet_public_key vs = PStr p"
    "int_instance (total_block_claim_count vs) = Some t"
    by (auto simp: record_invariant_def split: option.splits pyval.splits)
  then show ?thesis by (simp add: validator_state_tuple_def wire_int_instance)
qed

lemma wire_records:
  "list_all (\<lambda>(i, vs). record_invariant vs) xs \<Longrightarrow>
     map (map_prod wire wire) (map (\<lambda>(k, vs). (PStr k, validator_state_tuple vs)) xs) =
       map (\<lambda>(k, vs).
              (PStr k,
               PList [key_block_claim_count vs, poet_public_key vs,
                      total_block_claim_count vs])) xs"
  by (induction xs) (auto simp: wire_record)

lemma wire_self_dict:
  assumes "list_all (\<lambda>(i, vs). record_invariant vs) (validators s)"
  shows "wire (self_dict s) =
      PDict [(PStr ''aggregate_local_mean'', PFloat (aggregate_local_mean s)),
             (PStr ''total_block_claim_count'', PInt (cs_total_block_claim_count s)),
             (PStr ''_validators'',
              PDict (map (\<lambda>(k, vs).
                       (PStr k,
                        PList [key_block_claim_count vs, poet_public_key vs,
                               total_block_claim_count vs]))
                     (validators s)))]"
proof -
  have "wire (self_dict s) =
      PDict [(PStr ''aggregate_local_mean'', PFloat (aggregate_local_mean s)),
             (PStr ''total_block_claim_count'', PInt (cs_total_block_claim_count s)),
             (PStr ''_validators'',
              PDict (map (map_prod wire wire)
                (map (\<lambda>(k, vs). (PStr k, validator_state_tuple vs)) (validators s))))]"
    by (simp only: self_dict_def wire.simps list.map map_prod_simp)
  then show ?thesis by (simp only: wire_records [OF assms])
qed

subsection \<open>Rounding\<close>

lemma floor_log2_power: "floor_log2 (2 ^ n) = int n"
proof -
  have "bitlen (1 * 2 ^ n) = bitlen 1 + int n" by (rule bitlen_pow2) simp
  moreover have "bitlen 1 = 1" by (simp add: bitlen_alt_def)
  moreover have "\<lfloor>(2::rat) ^ n\<rfloor> = 2 ^ n"
    by (metis floor_of_int of_int_numeral of_int_power)
  ultimately show ?thesis by (simp add: floor_log2_def)
qed

lemma round_binary64_power:
  "round_binary64 (2 ^ n) = (if n < 1024 then Finite (2 ^ n) else PosInf)"
proof -
  have u: "(2::rat) ^ n / 2 powi (int n - 52) = 2 ^ 52"
    by (simp add: power_int_diff field_simps)
  have m: "round_half_even (2 ^ 52) = 2 ^ 52"
    by (simp add: round_half_even_def)
  have r: "of_int (2 ^ 52) * (2::rat) powi (int n - 52) = 2 ^ n"
    by (simp add: power_int_diff field_simps)
  have "(2::rat) powi int 1024 = 2 ^ 1024" by (rule power_int_of_nat)
  then have p: "(2::rat) powi 1024 = 2 ^ 1024" by (simp only: of_nat_numeral)
  have "((2::rat) ^ 1024 \<le> 2 ^ n) \<longleftrightarrow> 1024 \<le> n"
    by (rule power_increasing_iff) simp
  with p have cmp: "(2::rat) powi 1024 \<le> 2 ^ n \<longleftrightarrow> 1024 \<le> n"
    by (simp only:)
  have a: "\<bar>(2::rat) ^ n\<bar> = 2 ^ n" by simp
  have e: "max (floor_log2 (2 ^ n)) (- 1022) = int n" by (simp add: floor_log2_power)
  have nz: "((2::rat) ^ n = 0) = False" and nn: "((2::rat) ^ n < 0) = False" by simp_all
  have "round_binary64 (2 ^ n) = (if 1024 \<le> n then PosInf else Finite (2 ^ n))"
    by (simp only: round_binary64_def Let_def a e nz nn if_False u m r cmp)
  then show ?thesis by (cases "n < 1024") simp_all
qed

lemma round_one_tenth: "round_binary64 one_tenth = Finite one_tenth"
  unfolding one_tenth_def by code_simp

lemma round_three_tenths:
  "round_binary64 (one_tenth + two_tenths) = Finite (1351079888211149 / 4503599627370496)"
  unfolding one_tenth_def two_tenths_def by code_simp

lemma round_largest_power: "round_binary64 largest_power = Finite largest_power"
  unfolding largest_power_def by (simp only: round_binary64_power) simp

lemma round_overflow: "round_binary64 (2 * largest_power) = PosInf"
proof -
  have "2 * largest_power = 2 ^ 1024" by (simp add: largest_power_def)
  then show ?thesis by (simp only: round_binary64_power) simp
qed

lemma floor_log2_bounds:
  assumes "0 < a"
  shows "2 powi (floor_log2 a) \<le> a \<and> a < 2 powi (floor_log2 a + 1)"
proof (cases "1 \<le> a")
  case True
  define x where "x = \<lfloor>a\<rfloor>"
  have x: "0 < x" using True by (simp add: x_def)
  from bitlen_bounds [OF x] have b: "2 ^ nat (bitlen x - 1) \<le> x" "x < 2 ^ nat (bitlen x)"
    by simp_all
  have pos: "0 < bitlen x" using x by (simp add: bitlen_alt_def)
  have "(2::rat) powi (bitlen x - 1) = 2 ^ nat (bitlen x - 1)"
    using pos by (simp add: power_int_def)
  also have "\<dots> = of_int (2 ^ nat (bitlen x - 1))" by simp
  also have "\<dots> \<le> of_int x" using b(1) by (simp only: of_int_le_iff)
  also have "\<dots> \<le> a" by (simp add: x_def)
  finally have lower: "2 powi (bitlen x - 1) \<le> a" .
  have "a < of_int (x + 1)" using floor_correct [of a] by (simp add: x_def)
  also have "\<dots> \<le> of_int (2 ^ nat (bitlen x))" using b(2) by (simp only: of_int_le_iff)
  also have "\<dots> = (2::rat) powi (bitlen x)" using pos by (simp add: power_int_def)
  finally have upper: "a < 2 powi (bitlen x)" .
  from lower upper True show ?thesis by (simp add: floor_log2_def x_def)
next
  case False
  define n where "n = \<lceil>1 / a\<rceil> - 1"
  from False assms have inv: "1 < 1 / a" by (simp add: field_simps)
  then have n: "0 < n" unfolding n_def by (simp add: less_ceiling_iff)
  have n_lt: "of_int n < 1 / a" unfolding n_def by (simp add: ceiling_correct less_ceiling_iff)
  have n_ge: "1 / a \<le> of_int (n + 1)" unfolding n_def by simp
  from bitlen_bounds [OF n] have b: "2 ^ nat (bitlen n - 1) \<le> n" "n < 2 ^ nat (bitlen n)"
    by simp_all
  have pos: "0 < bitlen n" using n by (simp add: bitlen_alt_def)
  have "1 / a \<le> of_int (2 ^ nat (bitlen n))"
    using n_ge b(2) by (meson dual_order.trans of_int_le_iff zless_imp_add1_zle)
  also have "\<dots> = (2::rat) ^ nat (bitlen n)" by simp
  finally have "1 / a \<le> 2 ^ nat (bitlen n)" .
  with assms have "1 / 2 ^ nat (bitlen n) \<le> a"
    by (simp add: field_simps)
  moreover have "(2::rat) powi (- bitlen n) = 1 / 2 ^ nat (bitlen n)"
    using pos by (simp add: power_int_def field_simps)
  ultimately have lower: "2 powi (- bitlen n) \<le> a" by simp
  have "(2::rat) ^ nat (bitlen n - 1) = of_int (2 ^ nat (bitlen n - 1))" by simp
  also have "\<dots> \<le> of_int n" using b(1) by (simp only: of_int_le_iff)
  also have "\<dots> < 1 / a" by (rule n_lt)
  finally have "(2::rat) ^ nat (bitlen n - 1) < 1 / a" .
  with assms have "a < 1 / 2 ^ nat (bitlen n - 1)"
    by (simp add: field_simps)
  moreover have "(2::rat) powi (- bitlen n + 1) = 1 / 2 ^ nat (bitlen n - 1)"
  proof (cases "bitlen n = 1")
    case True
    then show ?thesis by simp
  next
    case False
    with pos have "- bitlen n + 1 < 0" by simp
    then show ?thesis
      by (simp add: power_int_def field_simps)
  qed
  ultimately have upper: "a < 2 powi (- bitlen n + 1)" by simp
  from lower upper False show ?thesis by (simp add: floor_log2_def n_def)
qed

lemma round_half_even_error: "\<bar>of_int (round_half_even x) - x\<bar> \<le> 1 / 2"
  using floor_correct [of x] unfolding round_half_even_def Let_def by auto

lemma round_half_even_nonneg: "0 \<le> x \<Longrightarrow> 0 \<le> round_half_even x"
  unfolding round_half_even_def Let_def by auto



lemma round_binary64_error:
  assumes "0 \<le> q" and "round_binary64 q = Finite r"
  shows "0 \<le> r \<and> \<bar>r - q\<bar> \<le> unit_roundoff * q + half_least_subnormal"
proof (cases "q = 0")
  case True
  have "round_binary64 0 = Finite 0" unfolding round_binary64_def by (rule if_P) (rule refl)
  with assms(2) True have "r = 0" by simp
  moreover have "0 \<le> half_least_subnormal" unfolding half_least_subnormal_def by (rule zero_le_power_int) simp
  ultimately show ?thesis using True by simp
next
  case False
  with assms(1) have q: "0 < q" by simp
  define e where "e = max (floor_log2 q) (- 1022)"
  define u where "u = (2::rat) powi (e - 52)"
  define m where "m = round_half_even (q / u)"
  have u: "0 < u" unfolding u_def by (rule zero_less_power_int) simp
  have a: "\<bar>q\<bar> = q" using q by simp
  have nz: "q \<noteq> 0" "\<not> q < 0" using q by simp_all
  have "round_binary64 q = (if 2 powi 1024 \<le> of_int m * u then PosInf else Finite (of_int m * u))"
    unfolding round_binary64_def Let_def a e_def [symmetric] u_def [symmetric] m_def [symmetric]
    by (simp only: nz if_False)
  with assms(2) have r: "r = of_int m * u"
    by (simp only: split: if_splits) simp_all
  have "0 \<le> q / u" using q u by simp
  then have "0 \<le> m" unfolding m_def by (rule round_half_even_nonneg)
  with u have nonneg: "0 \<le> r" by (simp add: r)
  have "\<bar>of_int m - q / u\<bar> \<le> 1 / 2" unfolding m_def by (rule round_half_even_error)
  then have "\<bar>of_int m - q / u\<bar> * u \<le> 1 / 2 * u"
    using u by (intro mult_right_mono) simp_all
  moreover have "\<bar>of_int m - q / u\<bar> * u = \<bar>(of_int m - q / u) * u\<bar>"
    using u by (simp add: abs_mult)
  moreover have "(of_int m - q / u) * u = r - q"
    using u by (simp add: r left_diff_distrib)
  ultimately have half: "\<bar>r - q\<bar> \<le> u / 2" by simp
  have halfu: "u / 2 = 2 powi (e - 53)"
  proof -
    have "(2::rat) powi (e - 52) = 2 powi ((e - 53) + 1)" by simp
    also have "\<dots> = 2 powi (e - 53) * 2" by (subst power_int_add) simp_all
    finally show ?thesis by (simp add: u_def)
  qed
  have pos1: "0 \<le> unit_roundoff" unfolding unit_roundoff_def by (rule zero_le_power_int) simp
  have pos2: "0 \<le> half_least_subnormal" unfolding half_least_subnormal_def by (rule zero_le_power_int) simp
  have "2 powi (e - 53) \<le> unit_roundoff * q + half_least_subnormal"
  proof (cases "- 1022 \<le> floor_log2 q")
    case True
    then have "e = floor_log2 q" by (simp add: e_def)
    with floor_log2_bounds [OF q] have "2 powi e \<le> q" by simp
    then have "unit_roundoff * 2 powi e \<le> unit_roundoff * q"
      using pos1 by (rule mult_left_mono)
    moreover have "(2::rat) powi (e - 53) = unit_roundoff * 2 powi e"
    proof -
      have "(2::rat) powi (e - 53) = 2 powi (- 53 + e)" by simp
      also have "\<dots> = 2 powi (- 53) * 2 powi e" by (rule power_int_add) simp
      finally show ?thesis by (simp only: unit_roundoff_def)
    qed
    ultimately show ?thesis using pos2 by linarith
  next
    case False
    then have "e = - 1022" by (simp add: e_def)
    then have "e - 53 = - 1075" by simp
    then have "(2::rat) powi (e - 53) = half_least_subnormal"
      by (simp only: half_least_subnormal_def)
    moreover have "0 \<le> unit_roundoff * q" using q pos1 by simp
    ultimately show ?thesis by linarith
  qed
  with half halfu nonneg show ?thesis by simp
qed

lemma round_binary64_nonneg_cases:
  assumes "0 \<le> q"
  shows "(\<exists>r. round_binary64 q = Finite r) \<or> round_binary64 q = PosInf"
  using assms unfolding round_binary64_def Let_def by (simp only: split: if_splits) auto


lemma foldl_float_add_PosInf:
  "foldl (float_add lib) PosInf (map Finite qs) = PosInf"
  by (induction qs) simp_all

lemma foldl_float_add_error:
  assumes rnd: "\<And>q r. 0 \<le> q \<Longrightarrow> round_float lib q = Finite r \<Longrightarrow> 0 \<le> r \<and> \<bar>r - q\<bar> \<le> u * q + c"
    and cases: "\<And>q. 0 \<le> q \<Longrightarrow> (\<exists>r. round_float lib q = Finite r) \<or> round_float lib q = PosInf"
    and u: "0 \<le> u" and c: "0 \<le> c"
  shows "0 \<le> a \<Longrightarrow> list_all (\<lambda>q. 0 \<le> q) qs \<Longrightarrow>
    foldl (float_add lib) (Finite a) (map Finite qs) = Finite b \<Longrightarrow>
    0 \<le> b \<and> \<bar>b - (a + sum_list qs)\<bar>
      \<le> of_nat (length qs) * (1 + u) ^ length qs * (u * (a + sum_list qs) + c)"
proof (induction qs arbitrary: a)
  case Nil
  then show ?case by simp
next
  case (Cons q qs)
  define n where "n = length qs"
  define t where "t = sum_list qs"
  define S where "S = a + q + t"
  define K where "K = (1 + u) ^ n"
  from Cons.prems(2) have q: "0 \<le> q" and qs: "list_all (\<lambda>q. 0 \<le> q) qs" by simp_all
  from qs have t: "0 \<le> t" unfolding t_def by (induction qs) simp_all
  from Cons.prems(1) q have aq: "0 \<le> a + q" by simp
  from cases [OF aq] Cons.prems(3) obtain a1 where a1: "round_float lib (a + q) = Finite a1"
    by (auto simp: foldl_float_add_PosInf)
  from rnd [OF aq a1] have a1_pos: "0 \<le> a1" and a1_err: "\<bar>a1 - (a + q)\<bar> \<le> u * (a + q) + c"
    by simp_all
  from Cons.prems(3) a1 have "foldl (float_add lib) (Finite a1) (map Finite qs) = Finite b"
    by simp
  from Cons.IH [OF a1_pos qs this]
  have b: "0 \<le> b" and ih: "\<bar>b - (a1 + t)\<bar> \<le> of_nat n * K * (u * (a1 + t) + c)"
    by (simp_all add: n_def t_def K_def)
  have S: "0 \<le> S" using aq t by (simp add: S_def)
  have K: "1 \<le> K" unfolding K_def using u by (intro one_le_power) simp
  have E: "0 \<le> u * S + c" using u c S by simp
  have "a1 \<le> (1 + u) * (a + q) + c" using a1_err by (simp add: algebra_simps abs_le_iff)
  moreover have "t \<le> (1 + u) * t" using u t by (simp add: algebra_simps)
  ultimately have "a1 + t \<le> (1 + u) * S + c" by (simp add: S_def algebra_simps)
  then have "u * (a1 + t) \<le> u * ((1 + u) * S + c)" using u by (rule mult_left_mono)
  then have step: "u * (a1 + t) + c \<le> (1 + u) * (u * S + c)" by (simp add: algebra_simps)
  have "of_nat n * K * (u * (a1 + t) + c) \<le> of_nat n * K * ((1 + u) * (u * S + c))"
    using step K by (intro mult_left_mono) simp_all
  with ih have first: "\<bar>b - (a1 + t)\<bar> \<le> of_nat n * (K * (1 + u)) * (u * S + c)"
    by (simp add: mult_ac)
  have "u * (a + q) \<le> u * S" using u t by (intro mult_left_mono) (simp_all add: S_def)
  with a1_err have "\<bar>a1 - (a + q)\<bar> \<le> 1 * (u * S + c)" by simp
  also have "\<dots> \<le> (K * (1 + u)) * (u * S + c)"
  proof (rule mult_right_mono [OF _ E])
    have "1 * 1 \<le> K * (1 + u)" using K u by (intro mult_mono) simp_all
    then show "1 \<le> K * (1 + u)" by simp
  qed
  finally have second: "\<bar>a1 - (a + q)\<bar> \<le> (K * (1 + u)) * (u * S + c)" .
  have "\<bar>b - S\<bar> \<le> \<bar>b - (a1 + t)\<bar> + \<bar>a1 - (a + q)\<bar>" by (simp add: S_def)
  also have "\<dots> \<le> of_nat n * (K * (1 + u)) * (u * S + c) + (K * (1 + u)) * (u * S + c)"
    using first second by (rule add_mono)
  also have "\<dots> = of_nat (Suc n) * (K * (1 + u)) * (u * S + c)"
    by (simp add: algebra_simps)
  finally have "\<bar>b - S\<bar> \<le> of_nat (Suc n) * (1 + u) ^ Suc n * (u * S + c)"
    by (simp add: K_def mult_ac)
  with b show ?case by (simp add: n_def t_def S_def add.assoc)
qed

lemma foldl_float_add_cases:
  assumes rnd: "\<And>q r. 0 \<le> q \<Longrightarrow> round_float lib q = Finite r \<Longrightarrow> 0 \<le> r"
    and cases: "\<And>q. 0 \<le> q \<Longrightarrow> (\<exists>r. round_float lib q = Finite r) \<or> round_float lib q = PosInf"
  shows "0 \<le> a \<Longrightarrow> list_all (\<lambda>q. 0 \<le> q) qs \<Longrightarrow>
    (\<exists>b. foldl (float_add lib) (Finite a) (map Finite qs) = Finite b)
    \<or> foldl (float_add lib) (Finite a) (map Finite qs) = PosInf"
proof (induction qs arbitrary: a)
  case Nil
  then show ?case by simp
next
  case (Cons q qs)
  from Cons.prems have aq: "0 \<le> a + q" and qs: "list_all (\<lambda>q. 0 \<le> q) qs" by simp_all
  from cases [OF aq] show ?case
  proof
    assume "\<exists>r. round_float lib (a + q) = Finite r"
    then obtain r where r: "round_float lib (a + q) = Finite r" ..
    from rnd [OF aq r] have "0 \<le> r" .
    from Cons.IH [OF this qs] r show ?thesis by simp
  next
    assume "round_float lib (a + q) = PosInf"
    then show ?thesis by (simp add: foldl_float_add_PosInf)
  qed
qed

lemma binary64_sum:
  assumes lib: "round_float lib = round_binary64"
    and qs: "list_all (\<lambda>q. 0 \<le> q) qs"
  shows "foldl (float_add lib) (Finite 0) (map Finite qs) = PosInf
    \<or> (\<exists>b. foldl (float_add lib) (Finite 0) (map Finite qs) = Finite b
          \<and> 0 \<le> b \<and> \<bar>b - sum_list qs\<bar> \<le> sum_error_bound (length qs) (sum_list qs))"
proof -
  have u: "0 \<le> unit_roundoff" unfolding unit_roundoff_def by (rule zero_le_power_int) simp
  have c: "0 \<le> half_least_subnormal"
    unfolding half_least_subnormal_def by (rule zero_le_power_int) simp
  have rnd: "0 \<le> r \<and> \<bar>r - q\<bar> \<le> unit_roundoff * q + half_least_subnormal"
    if "0 \<le> q" "round_float lib q = Finite r" for q r
    using that round_binary64_error [of q r] by (simp add: lib)
  then have rnd': "0 \<le> r" if "0 \<le> q" "round_float lib q = Finite r" for q r
    using that by blast
  have cases: "(\<exists>r. round_float lib q = Finite r) \<or> round_float lib q = PosInf"
    if "0 \<le> q" for q
    using that round_binary64_nonneg_cases [of q] by (simp add: lib)
  have zero: "(0::rat) \<le> 0" by simp
  from foldl_float_add_cases [of lib 0 qs, OF rnd' cases zero qs]
  show ?thesis
  proof
    assume "\<exists>b. foldl (float_add lib) (Finite 0) (map Finite qs) = Finite b"
    then obtain b where b: "foldl (float_add lib) (Finite 0) (map Finite qs) = Finite b" ..
    from foldl_float_add_error [of lib unit_roundoff half_least_subnormal 0 qs b,
        OF rnd cases u c zero qs b]
    have "0 \<le> b \<and> \<bar>b - sum_list qs\<bar> \<le> sum_error_bound (length qs) (sum_list qs)"
      by (simp add: sum_error_bound_def)
    with b show ?thesis by blast
  next
    assume "foldl (float_add lib) (Finite 0) (map Finite qs) = PosInf"
    then show ?thesis ..
  qed
qed

lemma run_claims_aggregate:
  "aggregate_local_mean (snd (run_claims lib init claims)) =
     foldl (float_add lib) (Finite 0) (map (\<lambda>c. local_mean (snd c)) claims)"
proof -
  have "counts_are_ints init" by (simp add: counts_are_ints_def init_def)
  from run_claims_accounting [OF this, of lib claims] show ?thesis
    by (auto simp: init_def)
qed

subsection \<open>Evaluation on the examples\<close>

lemmas parse_eval =
  parse_from_bytes_def parse_body_def subscript_def py_float_def py_int_def make_def
  py_iter_def check_validator_state_def py_str_def Let_def example_lib_def example_codec_def
  toplevel_def self_dict_def validator_state_tuple_def

lemma trunc_example: "trunc_toward_zero (4165829655317709 / 1125899906842624) = 3"
  unfolding trunc_toward_zero_def by (simp add: floor_unique)

lemma parse_example_state:
  "parse_from_bytes example_lib s buffer_two_validators = (Inr (), example_state)"
  by (simp add: parse_eval buffer_defs example_state_def)

section \<open>The claims\<close>

text \<open>
  C8. For a validator identity that is already in the map, \<^verbatim>\<open>get_validator_state\<close>
  returns the stored record as it is stored and leaves the object as it was, also when the
  signup key it is given differs from the key of the record: the key of the argument is
  not read on this path.
\<close>

theorem get_validator_state_present:
  assumes "map_of (validators s) (vi_id validator_info) = Some r"
  shows "get_validator_state s validator_info = (r, s)"
  using assms by (simp add: get_validator_state_def)

theorem get_validator_state_present_witness:
  "map_of (validators example_state) (vi_id (validator ''alice'' ''ROTATED''))
     = Some \<lparr>key_block_claim_count = PInt 1, poet_public_key = PStr ''A'',
             total_block_claim_count = PInt 2\<rparr>
   \<and> get_validator_state example_state (validator ''alice'' ''ROTATED'')
     = (\<lparr>key_block_claim_count = PInt 1, poet_public_key = PStr ''A'',
         total_block_claim_count = PInt 2\<rparr>, example_state)"
proof -
  have stored: "map_of (validators example_state) (vi_id (validator ''alice'' ''ROTATED''))
     = Some \<lparr>key_block_claim_count = PInt 1, poet_public_key = PStr ''A'',
             total_block_claim_count = PInt 2\<rparr>"
    by (simp add: example_state_def validator_def)
  from stored get_validator_state_present [OF stored] show ?thesis by simp
qed

text \<open>
  C4. When the stored record of a validator is \<open>{k, P, t}\<close>, a block claim of that
  validator under the signup key \<open>K\<close> returns normally and replaces the record by
  \<open>{k + 1, K, t + 1}\<close> when \<open>K = P\<close> and by \<open>{1, K, t + 1}\<close> otherwise; the records of
  the other validators stay as they are.
\<close>

theorem claim_replaces_record:
  assumes "map_of (validators s) (vi_id validator_info) =
      Some \<lparr>key_block_claim_count = PInt k, poet_public_key = PStr P,
            total_block_claim_count = PInt t\<rparr>"
    and "K = signup_poet_public_key (signup_info validator_info)"
  shows "fst (validator_did_claim_block lib s validator_info wait_certificate) = Inr ()
    \<and> map_of (validators (snd (validator_did_claim_block lib s validator_info
          wait_certificate))) =
       (map_of (validators s))(vi_id validator_info \<mapsto>
         \<lparr>key_block_claim_count = PInt (if K = P then k + 1 else 1),
          poet_public_key = PStr K,
          total_block_claim_count = PInt (t + 1)\<rparr>)"
proof -
  have "int_instance (PInt k) = Some k" and "int_instance (PInt t) = Some t"
    by simp_all
  with assms(1) have "validator_did_claim_block lib s validator_info wait_certificate =
      (Inr (),
       s\<lparr>aggregate_local_mean :=
           float_add lib (aggregate_local_mean s) (local_mean wait_certificate),
         cs_total_block_claim_count := cs_total_block_claim_count s + 1,
         validators :=
           AList.update (vi_id validator_info)
             \<lparr>key_block_claim_count = (if PStr K = PStr P then PInt (k + 1) else PInt 1),
              poet_public_key = PStr K,
              total_block_claim_count = PInt (t + 1)\<rparr>
             (validators s)\<rparr>)"
    by (simp add: claim_existing [where k = k and t = t] assms(2))
  then show ?thesis by (simp add: update_conv')
qed

theorem claim_replaces_record_witness:
  "map_of (validators (snd (validator_did_claim_block example_lib
      \<lparr>aggregate_local_mean = Finite 9, cs_total_block_claim_count = 5,
       validators = [(''v'', \<lparr>key_block_claim_count = PInt 2, poet_public_key = PStr ''A'',
                            total_block_claim_count = PInt 5\<rparr>)]\<rparr>
      (validator ''v'' ''A'') \<lparr>local_mean = Finite 1\<rparr>))) ''v''
    = Some \<lparr>key_block_claim_count = PInt 3, poet_public_key = PStr ''A'',
            total_block_claim_count = PInt 6\<rparr>
   \<and> map_of (validators (snd (validator_did_claim_block example_lib
      \<lparr>aggregate_local_mean = Finite 9, cs_total_block_claim_count = 5,
       validators = [(''v'', \<lparr>key_block_claim_count = PInt 2, poet_public_key = PStr ''A'',
                            total_block_claim_count = PInt 5\<rparr>)]\<rparr>
      (validator ''v'' ''B'') \<lparr>local_mean = Finite 1\<rparr>))) ''v''
    = Some \<lparr>key_block_claim_count = PInt 1, poet_public_key = PStr ''B'',
            total_block_claim_count = PInt 6\<rparr>"
  using
    claim_replaces_record [of
      "\<lparr>aggregate_local_mean = Finite 9, cs_total_block_claim_count = 5,
        validators = [(''v'', \<lparr>key_block_claim_count = PInt 2, poet_public_key = PStr ''A'',
                             total_block_claim_count = PInt 5\<rparr>)]\<rparr>"
      "validator ''v'' ''A''" 2 "''A''" 5 "''A''" example_lib "\<lparr>local_mean = Finite 1\<rparr>"]
    claim_replaces_record [of
      "\<lparr>aggregate_local_mean = Finite 9, cs_total_block_claim_count = 5,
        validators = [(''v'', \<lparr>key_block_claim_count = PInt 2, poet_public_key = PStr ''A'',
                             total_block_claim_count = PInt 5\<rparr>)]\<rparr>"
      "validator ''v'' ''B''" 2 "''A''" 5 "''B''" example_lib "\<lparr>local_mean = Finite 1\<rparr>"]
  by (simp add: validator_def)

text \<open>
  C5, as the specification states it: after \<open>N\<close> claims with finite, non-negative local
  means the aggregate is their sum. The aggregate is a float and every \<^verbatim>\<open>+=\<close> rounds:
  with binary64 rounding, the claims \<^verbatim>\<open>0.1\<close> and \<^verbatim>\<open>0.2\<close> leave
  \<^verbatim>\<open>0.30000000000000004\<close>, which is not the sum of the two floats, and two claims of
  \<open>2 ^ 1023\<close> leave the infinity.
\<close>

theorem aggregate_is_rounded:
  "aggregate_local_mean (snd (run_claims binary64_lib init
      [(validator ''alice'' ''A'', \<lparr>local_mean = Finite one_tenth\<rparr>),
       (validator ''bob'' ''B'', \<lparr>local_mean = Finite two_tenths\<rparr>)]))
     = Finite (1351079888211149 / 4503599627370496)
   \<and> one_tenth + two_tenths \<noteq> 1351079888211149 / 4503599627370496
   \<and> aggregate_local_mean (snd (run_claims binary64_lib init
      [(validator ''alice'' ''A'', \<lparr>local_mean = Finite largest_power\<rparr>),
       (validator ''bob'' ''B'', \<lparr>local_mean = Finite largest_power\<rparr>)]))
     = PosInf
   \<and> 0 \<le> one_tenth \<and> 0 \<le> two_tenths \<and> 0 \<le> largest_power
   \<and> round_binary64 one_tenth = Finite one_tenth
   \<and> round_binary64 two_tenths = Finite two_tenths
   \<and> round_binary64 largest_power = Finite largest_power"
proof -
  have "one_tenth + two_tenths \<noteq> 1351079888211149 / 4503599627370496"
    by (simp add: one_tenth_def two_tenths_def)
  moreover have "0 \<le> one_tenth" "0 \<le> two_tenths" "0 \<le> largest_power"
    by (simp_all add: one_tenth_def two_tenths_def largest_power_def)
  moreover have "aggregate_local_mean (snd (run_claims binary64_lib init
      [(validator ''alice'' ''A'', \<lparr>local_mean = Finite one_tenth\<rparr>),
       (validator ''bob'' ''B'', \<lparr>local_mean = Finite two_tenths\<rparr>)]))
     = Finite (1351079888211149 / 4503599627370496)"
    by (simp only: run_claims_aggregate)
      (simp add: binary64_lib_def round_one_tenth round_three_tenths)
  moreover have "aggregate_local_mean (snd (run_claims binary64_lib init
      [(validator ''alice'' ''A'', \<lparr>local_mean = Finite largest_power\<rparr>),
       (validator ''bob'' ''B'', \<lparr>local_mean = Finite largest_power\<rparr>)]))
     = PosInf"
    by (simp only: run_claims_aggregate)
      (simp add: binary64_lib_def round_largest_power round_overflow)
  moreover have "round_binary64 two_tenths = Finite two_tenths"
    unfolding two_tenths_def by code_simp
  ultimately show ?thesis
    using round_one_tenth round_largest_power by (intro conjI)
qed

text \<open>
  C5, amended. From a fresh object, any list of block claims is recorded without an
  exception; afterwards \<^verbatim>\<open>total_block_claim_count\<close> is the number of claims, whoever
  made them, and \<^verbatim>\<open>aggregate_local_mean\<close> is the float sum of the local means: the
  means added one after the other in the order of the claims, starting from \<^verbatim>\<open>0.0\<close>,
  each addition rounded. It is the exact sum when the local means are finite and no
  partial sum is rounded, under every rounding. Under binary64 rounding, with finite
  non-negative local means of exact sum \<open>S\<close>, it is either the infinity or a finite
  non-negative float within \<open>sum_error_bound N S\<close> of \<open>S\<close>.
\<close>

theorem claims_accounting:
  "fst (run_claims lib init claims) = Inr ()
   \<and> aggregate_local_mean (snd (run_claims lib init claims)) =
       foldl (float_add lib) (Finite 0) (map (\<lambda>c. local_mean (snd c)) claims)
   \<and> cs_total_block_claim_count (snd (run_claims lib init claims)) = int (length claims)
   \<and> (\<forall>qs. map (\<lambda>c. local_mean (snd c)) claims = map Finite qs
          \<and> (\<forall>k \<le> length qs.
                round_float lib (sum_list (take k qs)) = Finite (sum_list (take k qs)))
          \<longrightarrow> aggregate_local_mean (snd (run_claims lib init claims)) =
              Finite (sum_list qs))
   \<and> (\<forall>qs. round_float lib = round_binary64
          \<and> map (\<lambda>c. local_mean (snd c)) claims = map Finite qs
          \<and> list_all (\<lambda>q. 0 \<le> q) qs
          \<longrightarrow> aggregate_local_mean (snd (run_claims lib init claims)) = PosInf
              \<or> (\<exists>b. aggregate_local_mean (snd (run_claims lib init claims)) = Finite b
                    \<and> 0 \<le> b
                    \<and> \<bar>b - sum_list qs\<bar> \<le> sum_error_bound (length claims) (sum_list qs)))"
proof -
  have "counts_are_ints init" by (simp add: counts_are_ints_def init_def)
  from run_claims_accounting [OF this, of lib claims] have run:
    "fst (run_claims lib init claims) = Inr ()"
    "aggregate_local_mean (snd (run_claims lib init claims)) =
       foldl (float_add lib) (Finite 0) (map (\<lambda>c. local_mean (snd c)) claims)"
    "cs_total_block_claim_count (snd (run_claims lib init claims)) = int (length claims)"
    by (auto simp: init_def)
  have exact: "aggregate_local_mean (snd (run_claims lib init claims)) = Finite (sum_list qs)"
    if means: "map (\<lambda>c. local_mean (snd c)) claims = map Finite qs"
      and sums: "\<forall>k \<le> length qs.
        round_float lib (sum_list (take k qs)) = Finite (sum_list (take k qs))" for qs
  proof -
    from sums have "\<forall>k \<le> length qs.
        round_float lib (0 + sum_list (take k qs)) = Finite (0 + sum_list (take k qs))"
      by simp
    from foldl_float_add_exact [OF this] show ?thesis by (simp add: run(2) means)
  qed
  have bound: "aggregate_local_mean (snd (run_claims lib init claims)) = PosInf
      \<or> (\<exists>b. aggregate_local_mean (snd (run_claims lib init claims)) = Finite b
            \<and> 0 \<le> b
            \<and> \<bar>b - sum_list qs\<bar> \<le> sum_error_bound (length claims) (sum_list qs))"
    if lib: "round_float lib = round_binary64"
      and means: "map (\<lambda>c. local_mean (snd c)) claims = map Finite qs"
      and nonneg: "list_all (\<lambda>q. 0 \<le> q) qs" for qs
  proof -
    from means have "length (map (\<lambda>c. local_mean (snd c)) claims) = length (map Finite qs)"
      by (simp only:)
    then have "length claims = length qs" by simp
    with binary64_sum [OF lib nonneg] show ?thesis by (simp only: run(2) means)
  qed
  from run exact bound show ?thesis by blast
qed

theorem claims_accounting_witness:
  "aggregate_local_mean (snd (run_claims example_lib init
      [(validator ''alice'' ''A'', \<lparr>local_mean = Finite (1 / 2)\<rparr>),
       (validator ''bob'' ''B'', \<lparr>local_mean = Finite (1 / 4)\<rparr>),
       (validator ''alice'' ''A2'', \<lparr>local_mean = Finite 1\<rparr>)])) = Finite (7 / 4)
   \<and> cs_total_block_claim_count (snd (run_claims example_lib init
      [(validator ''alice'' ''A'', \<lparr>local_mean = Finite (1 / 2)\<rparr>),
       (validator ''bob'' ''B'', \<lparr>local_mean = Finite (1 / 4)\<rparr>),
       (validator ''alice'' ''A2'', \<lparr>local_mean = Finite 1\<rparr>)])) = 3
   \<and> \<bar>1351079888211149 / 4503599627370496 - (one_tenth + two_tenths)\<bar>
       \<le> sum_error_bound 2 (one_tenth + two_tenths)"
proof -
  have first: "aggregate_local_mean (snd (run_claims example_lib init
      [(validator ''alice'' ''A'', \<lparr>local_mean = Finite (1 / 2)\<rparr>),
       (validator ''bob'' ''B'', \<lparr>local_mean = Finite (1 / 4)\<rparr>),
       (validator ''alice'' ''A2'', \<lparr>local_mean = Finite 1\<rparr>)])) = Finite (7 / 4)
   \<and> cs_total_block_claim_count (snd (run_claims example_lib init
      [(validator ''alice'' ''A'', \<lparr>local_mean = Finite (1 / 2)\<rparr>),
       (validator ''bob'' ''B'', \<lparr>local_mean = Finite (1 / 4)\<rparr>),
       (validator ''alice'' ''A2'', \<lparr>local_mean = Finite 1\<rparr>)])) = 3"
    using claims_accounting [of example_lib
        "[(validator ''alice'' ''A'', \<lparr>local_mean = Finite (1 / 2)\<rparr>),
          (validator ''bob'' ''B'', \<lparr>local_mean = Finite (1 / 4)\<rparr>),
          (validator ''alice'' ''A2'', \<lparr>local_mean = Finite 1\<rparr>)]"]
    by (simp add: example_lib_def)
  define claims where "claims =
      [(validator ''alice'' ''A'', \<lparr>local_mean = Finite one_tenth\<rparr>),
       (validator ''bob'' ''B'', \<lparr>local_mean = Finite two_tenths\<rparr>)]"
  have lib: "round_float binary64_lib = round_binary64" by (simp add: binary64_lib_def)
  have means: "map (\<lambda>c. local_mean (snd c)) claims = map Finite [one_tenth, two_tenths]"
    by (simp add: claims_def)
  have nonneg: "list_all (\<lambda>q. 0 \<le> q) [one_tenth, two_tenths]"
    by (simp add: one_tenth_def two_tenths_def)
  have sum: "foldl (float_add binary64_lib) (Finite 0) (map Finite [one_tenth, two_tenths])
      = Finite (1351079888211149 / 4503599627370496)"
    by (simp add: lib round_one_tenth round_three_tenths)
  have len: "length claims = 2" by (simp add: claims_def)
  have total: "sum_list [one_tenth, two_tenths] = one_tenth + two_tenths" by simp
  from claims_accounting [of binary64_lib claims]
  have agg: "aggregate_local_mean (snd (run_claims binary64_lib init claims))
      = Finite (1351079888211149 / 4503599627370496)"
    by (simp only: means sum)
  from claims_accounting [of binary64_lib claims] lib means nonneg
  have "aggregate_local_mean (snd (run_claims binary64_lib init claims)) = PosInf
      \<or> (\<exists>b. aggregate_local_mean (snd (run_claims binary64_lib init claims)) = Finite b
            \<and> 0 \<le> b
            \<and> \<bar>b - sum_list [one_tenth, two_tenths]\<bar>
                \<le> sum_error_bound (length claims) (sum_list [one_tenth, two_tenths]))"
    by blast
  then have "\<bar>1351079888211149 / 4503599627370496 - (one_tenth + two_tenths)\<bar>
       \<le> sum_error_bound 2 (one_tenth + two_tenths)"
  proof
    assume "aggregate_local_mean (snd (run_claims binary64_lib init claims)) = PosInf"
    with agg show ?thesis by simp
  next
    assume "\<exists>b. aggregate_local_mean (snd (run_claims binary64_lib init claims)) = Finite b
            \<and> 0 \<le> b
            \<and> \<bar>b - sum_list [one_tenth, two_tenths]\<bar>
                \<le> sum_error_bound (length claims) (sum_list [one_tenth, two_tenths])"
    then obtain b
      where b: "aggregate_local_mean (snd (run_claims binary64_lib init claims)) = Finite b"
        and le: "\<bar>b - sum_list [one_tenth, two_tenths]\<bar>
                \<le> sum_error_bound (length claims) (sum_list [one_tenth, two_tenths])"
      by blast
    from b agg have "Finite b = Finite (1351079888211149 / 4503599627370496)"
      by (simp only:)
    then have "b = 1351079888211149 / 4503599627370496" by (simp only: pyfloat.inject)
    with le show ?thesis by (simp only: len total)
  qed
  with first show ?thesis by (intro conjI) simp_all
qed

text \<open>
  C6. For a validator identity that is not in the map, \<^verbatim>\<open>get_validator_state\<close> returns
  the default record \<open>{0, K, 0}\<close>, \<open>K\<close> the signup key it is given, and stores it. From
  then on, after any reads and any block claims of other validators, a read for the same
  identity, under whatever signup key, returns that record and changes nothing.
\<close>

theorem get_validator_state_absent:
  assumes "map_of (validators s) (vi_id validator_info) = None"
    and "K = signup_poet_public_key (signup_info validator_info)"
    and "s1 = snd (get_validator_state s validator_info)"
  shows "fst (get_validator_state s validator_info) =
      \<lparr>key_block_claim_count = PInt 0, poet_public_key = PStr K,
       total_block_claim_count = PInt 0\<rparr>
    \<and> map_of (validators s1) =
       (map_of (validators s))(vi_id validator_info \<mapsto>
         \<lparr>key_block_claim_count = PInt 0, poet_public_key = PStr K,
          total_block_claim_count = PInt 0\<rparr>)
    \<and> (\<forall>ops again.
          vi_id again = vi_id validator_info
          \<and> list_all (\<lambda>op. \<not> claims_for (vi_id validator_info) op) ops
          \<longrightarrow> get_validator_state (foldl (state_after lib) s1 ops) again =
              (\<lparr>key_block_claim_count = PInt 0, poet_public_key = PStr K,
                total_block_claim_count = PInt 0\<rparr>,
               foldl (state_after lib) s1 ops))"
proof -
  let ?r = "\<lparr>key_block_claim_count = PInt 0, poet_public_key = PStr K,
       total_block_claim_count = PInt 0\<rparr>"
  have r: "default_state validator_info = ?r"
    by (simp add: default_state_def assms(2))
  have first: "fst (get_validator_state s validator_info) = ?r"
    by (simp add: get_absent [OF assms(1)] r)
  have stored: "map_of (validators s1) = (map_of (validators s))(vi_id validator_info \<mapsto> ?r)"
    by (simp add: assms(3) get_absent [OF assms(1)] r update_conv')
  have later: "get_validator_state (foldl (state_after lib) s1 ops) again =
      (?r, foldl (state_after lib) s1 ops)"
    if "vi_id again = vi_id validator_info"
      and "list_all (\<lambda>op. \<not> claims_for (vi_id validator_info) op) ops" for ops again
  proof -
    from stored have "map_of (validators s1) (vi_id validator_info) = Some ?r" by simp
    moreover from that(2) have "\<forall>op \<in> set ops. \<not> claims_for (vi_id validator_info) op"
      by (simp add: list_all_iff)
    ultimately have
      "map_of (validators (foldl (state_after lib) s1 ops)) (vi_id validator_info) = Some ?r"
      by (rule foldl_state_after_keeps_record)
    then show ?thesis by (simp add: get_present that(1))
  qed
  from first stored later show ?thesis by blast
qed

theorem get_validator_state_absent_witness:
  "map_of (validators example_state) (vi_id (validator ''carol'' ''C'')) = None
   \<and> get_validator_state example_state (validator ''carol'' ''C'') =
      (\<lparr>key_block_claim_count = PInt 0, poet_public_key = PStr ''C'',
        total_block_claim_count = PInt 0\<rparr>,
       example_state\<lparr>validators := validators example_state
         @ [(''carol'', \<lparr>key_block_claim_count = PInt 0, poet_public_key = PStr ''C'',
                         total_block_claim_count = PInt 0\<rparr>)]\<rparr>)
   \<and> fst (get_validator_state
        (foldl (state_after example_lib)
           (snd (get_validator_state example_state (validator ''carol'' ''C'')))
           [Get (validator ''bob'' ''B''),
            Claim (validator ''alice'' ''A'') \<lparr>local_mean = Finite 1\<rparr>,
            Get (validator ''carol'' ''C2'')])
        (validator ''carol'' ''C3'')) =
      \<lparr>key_block_claim_count = PInt 0, poet_public_key = PStr ''C'',
       total_block_claim_count = PInt 0\<rparr>"
proof -
  have absent: "map_of (validators example_state) (vi_id (validator ''carol'' ''C'')) = None"
    by (simp add: example_state_def validator_def)
  have key: "''C'' = signup_poet_public_key (signup_info (validator ''carol'' ''C''))"
    by (simp add: validator_def)
  note fact = get_validator_state_absent [OF absent key refl, of example_lib]
  have call: "get_validator_state example_state (validator ''carol'' ''C'') =
      (\<lparr>key_block_claim_count = PInt 0, poet_public_key = PStr ''C'',
        total_block_claim_count = PInt 0\<rparr>,
       example_state\<lparr>validators := validators example_state
         @ [(''carol'', \<lparr>key_block_claim_count = PInt 0, poet_public_key = PStr ''C'',
                         total_block_claim_count = PInt 0\<rparr>)]\<rparr>)"
    by (simp add: get_validator_state_def example_state_def validator_def Let_def)
  have "vi_id (validator ''carol'' ''C3'') = vi_id (validator ''carol'' ''C'')
      \<and> list_all (\<lambda>op. \<not> claims_for (vi_id (validator ''carol'' ''C'')) op)
          [Get (validator ''bob'' ''B''),
           Claim (validator ''alice'' ''A'') \<lparr>local_mean = Finite 1\<rparr>,
           Get (validator ''carol'' ''C2'')]"
    by (simp add: validator_def)
  with fact have "get_validator_state
        (foldl (state_after example_lib)
           (snd (get_validator_state example_state (validator ''carol'' ''C'')))
           [Get (validator ''bob'' ''B''),
            Claim (validator ''alice'' ''A'') \<lparr>local_mean = Finite 1\<rparr>,
            Get (validator ''carol'' ''C2'')])
        (validator ''carol'' ''C3'') =
      (\<lparr>key_block_claim_count = PInt 0, poet_public_key = PStr ''C'',
        total_block_claim_count = PInt 0\<rparr>,
       foldl (state_after example_lib)
           (snd (get_validator_state example_state (validator ''carol'' ''C'')))
           [Get (validator ''bob'' ''B''),
            Claim (validator ''alice'' ''A'') \<lparr>local_mean = Finite 1\<rparr>,
            Get (validator ''carol'' ''C2'')])"
    by blast
  with absent call show ?thesis by simp
qed

text \<open>
  C7. In every state that a fresh object reaches by reads, block claims and successful
  parses, every record of the validator map has two counts that are integers and not
  negative, a key that is a non-empty string, and a count under the current key that is at
  most the total count.
\<close>

theorem reachable_record_invariant:
  assumes "reachable lib s" and "(i, r) \<in> set (validators s)"
  shows "\<exists>k p t.
      int_instance (key_block_claim_count r) = Some k \<and> poet_public_key r = PStr p
      \<and> int_instance (total_block_claim_count r) = Some t
      \<and> 0 \<le> k \<and> p \<noteq> [] \<and> 0 \<le> t \<and> k \<le> t"
proof -
  have "list_all (\<lambda>(i, r). record_invariant r) (validators s)"
    using assms(1)
  proof (induction rule: reachable.induct)
    case reachable_init
    show ?case by (simp add: init_def)
  next
    case (reachable_get s vi)
    show ?case
    proof (cases "map_of (validators s) (vi_id vi)")
      case None
      have "record_invariant (default_state vi)"
        using reachable_get.hyps(2) by (simp add: default_state_def record_invariant_def)
      with reachable_get.IH show ?thesis
        by (simp add: get_absent [OF None] list_all_update)
    next
      case (Some r)
      with reachable_get show ?thesis by (simp add: get_present)
    qed
  next
    case (reachable_claim s vi wc)
    show ?case
    proof (cases "map_of (validators s) (vi_id vi)")
      case None
      have "record_invariant
          \<lparr>key_block_claim_count = PInt 1,
           poet_public_key = PStr (signup_poet_public_key (signup_info vi)),
           total_block_claim_count = PInt 1\<rparr>"
        using reachable_claim.hyps(2) by (simp add: record_invariant_def)
      with reachable_claim.IH show ?thesis
        by (simp add: claim_new [OF None] list_all_update)
    next
      case (Some r)
      then have "(vi_id vi, r) \<in> set (validators s)" by (rule map_of_SomeD)
      with reachable_claim.IH have inv: "record_invariant r"
        by (auto simp: list_all_iff)
      then obtain k p t where r:
        "int_instance (key_block_claim_count r) = Some k" "poet_public_key r = PStr p"
        "int_instance (total_block_claim_count r) = Some t" "0 \<le> k" "0 \<le> t" "k \<le> t"
        by (auto simp: record_invariant_def split: option.splits pyval.splits)
      have "record_invariant
          \<lparr>key_block_claim_count =
             (if PStr (signup_poet_public_key (signup_info vi)) = poet_public_key r
              then PInt (k + 1) else PInt 1),
           poet_public_key = PStr (signup_poet_public_key (signup_info vi)),
           total_block_claim_count = PInt (t + 1)\<rparr>"
        using reachable_claim.hyps(2) r by (auto simp: record_invariant_def)
      with reachable_claim.IH show ?thesis
        by (simp add: claim_existing [OF Some r(1) r(3)] list_all_update)
    qed
  next
    case (reachable_parse s buffer s')
    from reachable_parse.hyps(2) have "parse_body lib s buffer = (Inr (), s')"
      by (simp add: parse_from_bytes_success)
    from parse_body_success [OF this] obtain f n vd where
      "parse_validators lib vd
         (s\<lparr>aggregate_local_mean := f, cs_total_block_claim_count := n, validators := []\<rparr>)
        = (Inr (), s')"
      by blast
    then show ?case by (rule parse_validators_invariant) simp
  qed
  with assms(2) have "record_invariant r" by (auto simp: list_all_iff)
  then show ?thesis
    by (auto simp: record_invariant_def split: option.splits pyval.splits)
qed

theorem reachable_record_invariant_witness:
  "reachable example_lib
     (snd (validator_did_claim_block example_lib example_state (validator ''alice'' ''A2'')
        \<lparr>local_mean = Finite 1\<rparr>))
   \<and> (''alice'', \<lparr>key_block_claim_count = PInt 1, poet_public_key = PStr ''A2'',
                  total_block_claim_count = PInt 3\<rparr>)
      \<in> set (validators (snd (validator_did_claim_block example_lib example_state
           (validator ''alice'' ''A2'') \<lparr>local_mean = Finite 1\<rparr>)))
   \<and> (\<exists>k p t. int_instance (PInt 1) = Some k \<and> PStr ''A2'' = PStr p
        \<and> int_instance (PInt 3) = Some t \<and> 0 \<le> k \<and> p \<noteq> [] \<and> 0 \<le> t \<and> k \<le> t)"
proof -
  have "reachable example_lib example_state"
    using reachable_init parse_example_state by (rule reachable_parse)
  then have reached: "reachable example_lib
     (snd (validator_did_claim_block example_lib example_state (validator ''alice'' ''A2'')
        \<lparr>local_mean = Finite 1\<rparr>))"
    by (rule reachable_claim) (simp add: validator_def)
  have stored: "(''alice'', \<lparr>key_block_claim_count = PInt 1, poet_public_key = PStr ''A2'',
                  total_block_claim_count = PInt 3\<rparr>)
      \<in> set (validators (snd (validator_did_claim_block example_lib example_state
           (validator ''alice'' ''A2'') \<lparr>local_mean = Finite 1\<rparr>)))"
    by (simp add: validator_did_claim_block_def get_validator_state_def py_add1_def
        example_state_def validator_def Let_def)
  from reachable_record_invariant [OF reached stored] reached stored show ?thesis
    by simp
qed

text \<open>
  C1. Round trip. Let \<open>s\<close> be a valid state, let \<^verbatim>\<open>serialize_to_bytes\<close> return
  \<open>buffer\<close> for it, and let the codec read back the dictionary of the object from the
  bytes it wrote for it (every named tuple as a list). Then \<^verbatim>\<open>parse_from_bytes\<close> on
  \<open>buffer\<close> returns normally, whatever the object held before, and the object is \<open>s\<close>
  afterwards: the same aggregate, the same total, the same validator map with the same
  records.
\<close>

theorem serialize_parse_roundtrip:
  assumes "valid_state s"
    and "serialize_to_bytes lib s = Inr buffer"
    and "reads_back lib (self_dict s)"
  shows "parse_from_bytes lib target buffer = (Inr (), s)"
proof -
  from assms(1) have ok: "isfinite (aggregate_local_mean s)"
    "\<not> float_lt_zero (aggregate_local_mean s)" "0 \<le> cs_total_block_claim_count s"
    and records: "list_all (\<lambda>(i, vs). record_invariant vs) (validators s)"
    and keys: "distinct (map fst (validators s))"
    by (simp_all add: valid_state_def)
  let ?vd = "map (\<lambda>(k, vs).
                   (PStr k,
                    PList [key_block_claim_count vs, poet_public_key vs,
                           total_block_claim_count vs]))
                 (validators s)"
  let ?d = "[(PStr ''aggregate_local_mean'', PFloat (aggregate_local_mean s)),
         (PStr ''total_block_claim_count'', PInt (cs_total_block_claim_count s)),
         (PStr ''_validators'', PDict ?vd)]"
  from assms(2) have "cbor_dumps lib (self_dict s) = Inr buffer"
    by (simp add: serialize_to_bytes_def)
  with assms(3) have "cbor_loads lib buffer = Inr (wire (self_dict s))"
    by (simp add: reads_back_def)
  then have loaded: "cbor_loads lib buffer = Inr (PDict ?d)"
    by (simp only: wire_self_dict [OF records])
  let ?start = "target\<lparr>aggregate_local_mean := aggregate_local_mean s,
    cs_total_block_claim_count := cs_total_block_claim_count s, validators := []\<rparr>"
  from keys have "distinct (map fst (validators ?start @ validators s))" by simp
  from parse_validators_roundtrip [OF records this] have loop:
    "parse_validators lib ?vd ?start = (Inr (), s)"
    by (cases s, cases target) simp
  have a: "map_of ?d (PStr ''aggregate_local_mean'') = Some (PFloat (aggregate_local_mean s))"
    by simp
  have f: "py_float lib (PFloat (aggregate_local_mean s)) = Inr (aggregate_local_mean s)"
    by (simp add: py_float_def)
  have t: "map_of ?d (PStr ''total_block_claim_count'')
      = Some (PInt (cs_total_block_claim_count s))"
    by simp
  have n: "py_int lib (PInt (cs_total_block_claim_count s)) = Inr (cs_total_block_claim_count s)"
    by (simp add: py_int_def)
  have v: "map_of ?d (PStr ''_validators'') = Some (PDict ?vd)"
    by simp
  from parse_body_valid_toplevel [OF loaded a f t n v ok, of target] loop
  have "parse_body lib target buffer = (Inr (), s)"
    by simp
  then show ?thesis by (simp add: parse_from_bytes_success)
qed

theorem serialize_parse_roundtrip_witness:
  "valid_state example_state
   \<and> serialize_to_bytes example_lib example_state = Inr buffer_two_validators
   \<and> reads_back example_lib (self_dict example_state)
   \<and> parse_from_bytes example_lib init buffer_two_validators = (Inr (), example_state)"
proof -
  have valid: "valid_state example_state"
    by (simp add: valid_state_def example_state_def record_invariant_def)
  have written: "serialize_to_bytes example_lib example_state = Inr buffer_two_validators"
    by (simp add: serialize_to_bytes_def example_lib_def)
  have codec: "reads_back example_lib (self_dict example_state)"
    by (simp add: reads_back_def example_lib_def example_codec_def buffer_defs)
  from serialize_parse_roundtrip [OF valid written codec, of init] valid written codec
  show ?thesis by simp
qed

text \<open>
  C9. Only three entries of the decoded mapping are read. When they are valid (the
  aggregate converts to a finite float that is not negative, the total converts to an
  integer that is not negative, and every entry of the validators mapping makes a record
  that satisfies the invariant), the buffer is accepted whatever else the mapping holds,
  the object gets the two converted scalars, and the identities of its validator map are
  those of the validators entry and nothing else. Any other buffer whose mapping has the
  same three entries has the same outcome.
\<close>

theorem parse_ignores_other_keys:
  assumes "cbor_loads lib buffer = Inr (PDict d)"
    and "map_of d (PStr ''aggregate_local_mean'') = Some a" and "py_float lib a = Inr f"
    and "isfinite f" and "\<not> float_lt_zero f"
    and "map_of d (PStr ''total_block_claim_count'') = Some t" and "py_int lib t = Inr n"
    and "0 \<le> n"
    and "map_of d (PStr ''_validators'') = Some (PDict vd)"
    and "list_all (\<lambda>(key, v). \<exists>r. make v = Inr r \<and> record_invariant r) vd"
  shows "(\<exists>vals. parse_from_bytes lib s buffer =
            (Inr (), \<lparr>aggregate_local_mean = f, cs_total_block_claim_count = n,
                      validators = vals\<rparr>)
          \<and> fst ` set vals = (\<lambda>(key, v). py_str lib key) ` set vd)
    \<and> (\<forall>buffer' d'.
          cbor_loads lib buffer' = Inr (PDict d')
          \<and> map_of d' (PStr ''aggregate_local_mean'') = Some a
          \<and> map_of d' (PStr ''total_block_claim_count'') = Some t
          \<and> map_of d' (PStr ''_validators'') = Some (PDict vd)
          \<longrightarrow> parse_from_bytes lib s buffer' = parse_from_bytes lib s buffer)"
proof -
  let ?start = "s\<lparr>aggregate_local_mean := f, cs_total_block_claim_count := n,
    validators := []\<rparr>"
  have body: "parse_body lib s b = parse_validators lib vd ?start"
    if "cbor_loads lib b = Inr (PDict d')"
      and "map_of d' (PStr ''aggregate_local_mean'') = Some a"
      and "map_of d' (PStr ''total_block_claim_count'') = Some t"
      and "map_of d' (PStr ''_validators'') = Some (PDict vd)" for b d'
    using that(1,2) assms(3) that(3) assms(7) that(4) assms(4,5,8)
    by (rule parse_body_valid_toplevel)
  from parse_validators_ok [OF assms(10), of lib ?start] obtain s' where
    loop: "parse_validators lib vd ?start = (Inr (), s')"
    by blast
  from parse_validators_scalars [OF loop] have
    "s' = \<lparr>aggregate_local_mean = f, cs_total_block_claim_count = n,
           validators = validators s'\<rparr>"
    by (cases s') simp
  moreover from parse_validators_keys [OF loop] have
    "fst ` set (validators s') = (\<lambda>(key, v). py_str lib key) ` set vd"
    by simp
  moreover have "parse_from_bytes lib s buffer = (Inr (), s')"
    using body [OF assms(1,2,6,9)] loop by (simp add: parse_from_bytes_success)
  ultimately have accepted: "\<exists>vals. parse_from_bytes lib s buffer =
            (Inr (), \<lparr>aggregate_local_mean = f, cs_total_block_claim_count = n,
                      validators = vals\<rparr>)
          \<and> fst ` set vals = (\<lambda>(key, v). py_str lib key) ` set vd"
    by metis
  have same: "parse_from_bytes lib s buffer' = parse_from_bytes lib s buffer"
    if "cbor_loads lib buffer' = Inr (PDict d')"
      and "map_of d' (PStr ''aggregate_local_mean'') = Some a"
      and "map_of d' (PStr ''total_block_claim_count'') = Some t"
      and "map_of d' (PStr ''_validators'') = Some (PDict vd)" for buffer' d'
    using body [OF that] body [OF assms(1,2,6,9)] by (simp add: parse_from_bytes_def)
  from accepted same show ?thesis by blast
qed

theorem parse_ignores_other_keys_witness:
  "parse_from_bytes example_lib example_state buffer_extra_keys =
     (Inr (), \<lparr>aggregate_local_mean = Finite (3 / 2), cs_total_block_claim_count = 3,
       validators = [(''alice'', \<lparr>key_block_claim_count = PInt 1,
          poet_public_key = PStr ''A'', total_block_claim_count = PInt 2\<rparr>)]\<rparr>)
   \<and> parse_from_bytes example_lib example_state buffer_one_validator =
       parse_from_bytes example_lib example_state buffer_extra_keys"
proof -
  let ?vd = "[(PStr ''alice'', PList [PInt 1, PStr ''A'', PInt 2])]"
  let ?d = "(PStr ''version'', PInt 7)
        # toplevel (PFloat (Finite (3 / 2))) (PInt 3) ?vd @ [(PStr ''note'', PStr ''x'')]"
  have extra: "cbor_loads example_lib buffer_extra_keys = Inr (PDict ?d)"
    by (simp add: example_lib_def example_codec_def buffer_defs)
  have plain: "cbor_loads example_lib buffer_one_validator =
      Inr (PDict (toplevel (PFloat (Finite (3 / 2))) (PInt 3) ?vd))"
    by (simp add: example_lib_def example_codec_def buffer_defs)
  have entries: "list_all (\<lambda>(key, v). \<exists>r. make v = Inr r \<and> record_invariant r) ?vd"
    by (simp add: make_iff py_iter_def record_invariant_def)
      (rule exI [of _ "\<lparr>key_block_claim_count = PInt 1, poet_public_key = PStr ''A'',
          total_block_claim_count = PInt 2\<rparr>"], simp)
  have fact: "(\<exists>vals. parse_from_bytes example_lib example_state buffer_extra_keys =
            (Inr (), \<lparr>aggregate_local_mean = Finite (3 / 2), cs_total_block_claim_count = 3,
                      validators = vals\<rparr>)
          \<and> fst ` set vals = (\<lambda>(key, v). py_str example_lib key) ` set ?vd)
    \<and> (\<forall>buffer' d'.
          cbor_loads example_lib buffer' = Inr (PDict d')
          \<and> map_of d' (PStr ''aggregate_local_mean'') = Some (PFloat (Finite (3 / 2)))
          \<and> map_of d' (PStr ''total_block_claim_count'') = Some (PInt 3)
          \<and> map_of d' (PStr ''_validators'') = Some (PDict ?vd)
          \<longrightarrow> parse_from_bytes example_lib example_state buffer' =
              parse_from_bytes example_lib example_state buffer_extra_keys)"
    by (rule parse_ignores_other_keys [OF extra _ _ _ _ _ _ _ _ entries])
      (simp_all add: toplevel_def py_float_def py_int_def)
  from fact plain have "parse_from_bytes example_lib example_state buffer_one_validator =
       parse_from_bytes example_lib example_state buffer_extra_keys"
    by (simp add: toplevel_def)
  moreover have "parse_from_bytes example_lib example_state buffer_extra_keys =
     (Inr (), \<lparr>aggregate_local_mean = Finite (3 / 2), cs_total_block_claim_count = 3,
       validators = [(''alice'', \<lparr>key_block_claim_count = PInt 1,
          poet_public_key = PStr ''A'', total_block_claim_count = PInt 2\<rparr>)]\<rparr>)"
    by (simp add: parse_eval buffer_defs example_state_def)
  ultimately show ?thesis by simp
qed

text \<open>
  C2, as the specification states it: a failed \<^verbatim>\<open>parse_from_bytes\<close> leaves the aggregate,
  the total and the validator map of the object as they were. The code assigns each
  attribute when it reaches it and has no rollback. On the buffer below the second record
  has a key count of 5 over a total of 3: the call raises the \<open>ValueError\<close>, and the object,
  which held the aggregate 1.5, the total 3 and the records of alice and bob, now holds the
  aggregate 2.0, the total 2 and the first record of the buffer.
\<close>

theorem parse_failure_changes_state:
  "parse_from_bytes example_lib example_state buffer_bad_second_record =
    (Inl (ValueError (ErrorParsing (ValueError (TotalLessThanKey (PInt 3) (PInt 5))))),
     \<lparr>aggregate_local_mean = Finite 2, cs_total_block_claim_count = 2,
      validators = [(''a'', \<lparr>key_block_claim_count = PInt 1, poet_public_key = PStr ''A'',
                          total_block_claim_count = PInt 1\<rparr>)]\<rparr>)
   \<and> aggregate_local_mean example_state \<noteq> Finite 2
   \<and> cs_total_block_claim_count example_state \<noteq> 2
   \<and> map_of (validators example_state) ''alice'' \<noteq> None"
  by (simp add: parse_eval buffer_defs example_state_def)

text \<open>
  C2, amended. After a failed \<^verbatim>\<open>parse_from_bytes\<close>, each attribute that was assigned
  before the failure holds the decoded value and each other attribute is unchanged:
  \<^verbatim>\<open>aggregate_local_mean\<close> is the float decoded from the buffer if the call got that far
  and is unchanged otherwise; so is \<^verbatim>\<open>total_block_claim_count\<close> with the decoded
  integer; the validator map is unchanged unless the checks of the two scalars passed
  and the validators entry is a mapping, and then it is the map that the entries before
  the first entry that is not accepted give, starting from the empty map. The object is
  unchanged when the call fails before the first assignment: the codec fails, the decoded
  value is not a mapping, or the aggregate is missing or does not convert.
\<close>

theorem parse_failure_effect_on_state:
  assumes "parse_from_bytes lib s buffer = (Inl e, s')"
  shows "aggregate_local_mean s' =
      (case decoded_aggregate lib buffer of None \<Rightarrow> aggregate_local_mean s | Some f \<Rightarrow> f)
    \<and> cs_total_block_claim_count s' =
      (case decoded_total lib buffer of None \<Rightarrow> cs_total_block_claim_count s | Some n \<Rightarrow> n)
    \<and> (case decoded_validators lib buffer of
         None \<Rightarrow> validators s' = validators s
       | Some vd \<Rightarrow>
           \<exists>k<length vd. list_all accepted_entry (take k vd) \<and> \<not> accepted_entry (vd ! k)
             \<and> parse_validators lib (take k vd) (s'\<lparr>validators := []\<rparr>) = (Inr (), s'))
    \<and> (decoded_aggregate lib buffer = None \<longrightarrow> s' = s)"
proof -
  from assms obtain e' where "parse_body lib s buffer = (Inl e', s')"
    by (auto dest: parse_from_bytes_failure)
  then show ?thesis by (rule parse_failure_effect)
qed

theorem parse_failure_effect_on_state_witness:
  "parse_from_bytes example_lib example_state buffer_bad_second_record =
    (Inl (ValueError (ErrorParsing (ValueError (TotalLessThanKey (PInt 3) (PInt 5))))),
     \<lparr>aggregate_local_mean = Finite 2, cs_total_block_claim_count = 2,
      validators = [(''a'', \<lparr>key_block_claim_count = PInt 1, poet_public_key = PStr ''A'',
                          total_block_claim_count = PInt 1\<rparr>)]\<rparr>)
   \<and> decoded_aggregate example_lib buffer_bad_second_record = Some (Finite 2)
   \<and> decoded_total example_lib buffer_bad_second_record = Some 2
   \<and> decoded_validators example_lib buffer_bad_second_record =
       Some [(PStr ''a'', PList [PInt 1, PStr ''A'', PInt 1]),
             (PStr ''b'', PList [PInt 5, PStr ''B'', PInt 3])]
   \<and> (\<exists>k<length [(PStr ''a'', PList [PInt 1, PStr ''A'', PInt 1]),
                  (PStr ''b'', PList [PInt 5, PStr ''B'', PInt 3])].
        list_all accepted_entry
          (take k [(PStr ''a'', PList [PInt 1, PStr ''A'', PInt 1]),
                   (PStr ''b'', PList [PInt 5, PStr ''B'', PInt 3])])
        \<and> \<not> accepted_entry
            ([(PStr ''a'', PList [PInt 1, PStr ''A'', PInt 1]),
              (PStr ''b'', PList [PInt 5, PStr ''B'', PInt 3])] ! k)
        \<and> parse_validators example_lib
            (take k [(PStr ''a'', PList [PInt 1, PStr ''A'', PInt 1]),
                     (PStr ''b'', PList [PInt 5, PStr ''B'', PInt 3])])
            (\<lparr>aggregate_local_mean = Finite 2, cs_total_block_claim_count = 2,
              validators = [(''a'', \<lparr>key_block_claim_count = PInt 1,
                 poet_public_key = PStr ''A'', total_block_claim_count = PInt 1\<rparr>)]\<rparr>
             \<lparr>validators := []\<rparr>)
          = (Inr (),
             \<lparr>aggregate_local_mean = Finite 2, cs_total_block_claim_count = 2,
              validators = [(''a'', \<lparr>key_block_claim_count = PInt 1,
                 poet_public_key = PStr ''A'', total_block_claim_count = PInt 1\<rparr>)]\<rparr>))
   \<and> accepted_entry (PStr ''a'', PList [PInt 1, PStr ''A'', PInt 1])
   \<and> \<not> accepted_entry (PStr ''b'', PList [PInt 5, PStr ''B'', PInt 3])
   \<and> decoded_aggregate example_lib [] = None
   \<and> parse_from_bytes example_lib example_state [] =
       (Inl (ValueError (ErrorParsing (ValueError BuiltinValueError))), example_state)"
proof -
  have second: "parse_from_bytes example_lib example_state buffer_bad_second_record =
    (Inl (ValueError (ErrorParsing (ValueError (TotalLessThanKey (PInt 3) (PInt 5))))),
     \<lparr>aggregate_local_mean = Finite 2, cs_total_block_claim_count = 2,
      validators = [(''a'', \<lparr>key_block_claim_count = PInt 1, poet_public_key = PStr ''A'',
                          total_block_claim_count = PInt 1\<rparr>)]\<rparr>)"
    by (simp add: parse_eval buffer_defs example_state_def)
  have decoded: "decoded_aggregate example_lib buffer_bad_second_record = Some (Finite 2)"
    "decoded_total example_lib buffer_bad_second_record = Some 2"
    "decoded_validators example_lib buffer_bad_second_record =
       Some [(PStr ''a'', PList [PInt 1, PStr ''A'', PInt 1]),
             (PStr ''b'', PList [PInt 5, PStr ''B'', PInt 3])]"
    by (simp_all add: decoded_validators_def decoded_total_def decoded_aggregate_def
        example_lib_def example_codec_def toplevel_def py_float_def py_int_def buffer_defs)
  have entries: "accepted_entry (PStr ''a'', PList [PInt 1, PStr ''A'', PInt 1])"
    "\<not> accepted_entry (PStr ''b'', PList [PInt 5, PStr ''B'', PInt 3])"
    by (simp_all add: accepted_entry_def make_def py_iter_def check_validator_state_def)
  have empty: "decoded_aggregate example_lib [] = None"
    "parse_from_bytes example_lib example_state [] =
       (Inl (ValueError (ErrorParsing (ValueError BuiltinValueError))), example_state)"
    by (simp_all add: decoded_aggregate_def parse_from_bytes_def parse_body_def
        example_lib_def example_codec_def buffer_defs)
  note fact = parse_failure_effect_on_state [OF second]
  from fact have "case decoded_validators example_lib buffer_bad_second_record of
         None \<Rightarrow> validators
             \<lparr>aggregate_local_mean = Finite 2, cs_total_block_claim_count = 2,
              validators = [(''a'', \<lparr>key_block_claim_count = PInt 1,
                 poet_public_key = PStr ''A'', total_block_claim_count = PInt 1\<rparr>)]\<rparr>
           = validators example_state
       | Some vd \<Rightarrow>
           \<exists>k<length vd. list_all accepted_entry (take k vd) \<and> \<not> accepted_entry (vd ! k)
             \<and> parse_validators example_lib (take k vd)
                 (\<lparr>aggregate_local_mean = Finite 2, cs_total_block_claim_count = 2,
                   validators = [(''a'', \<lparr>key_block_claim_count = PInt 1,
                     poet_public_key = PStr ''A'', total_block_claim_count = PInt 1\<rparr>)]\<rparr>
                  \<lparr>validators := []\<rparr>)
               = (Inr (),
                  \<lparr>aggregate_local_mean = Finite 2, cs_total_block_claim_count = 2,
                   validators = [(''a'', \<lparr>key_block_claim_count = PInt 1,
                     poet_public_key = PStr ''A'', total_block_claim_count = PInt 1\<rparr>)]\<rparr>)"
    by (elim conjE)
  then have prefix: "\<exists>k<length [(PStr ''a'', PList [PInt 1, PStr ''A'', PInt 1]),
                  (PStr ''b'', PList [PInt 5, PStr ''B'', PInt 3])].
        list_all accepted_entry
          (take k [(PStr ''a'', PList [PInt 1, PStr ''A'', PInt 1]),
                   (PStr ''b'', PList [PInt 5, PStr ''B'', PInt 3])])
        \<and> \<not> accepted_entry
            ([(PStr ''a'', PList [PInt 1, PStr ''A'', PInt 1]),
              (PStr ''b'', PList [PInt 5, PStr ''B'', PInt 3])] ! k)
        \<and> parse_validators example_lib
            (take k [(PStr ''a'', PList [PInt 1, PStr ''A'', PInt 1]),
                     (PStr ''b'', PList [PInt 5, PStr ''B'', PInt 3])])
            (\<lparr>aggregate_local_mean = Finite 2, cs_total_block_claim_count = 2,
              validators = [(''a'', \<lparr>key_block_claim_count = PInt 1,
                 poet_public_key = PStr ''A'', total_block_claim_count = PInt 1\<rparr>)]\<rparr>
             \<lparr>validators := []\<rparr>)
          = (Inr (),
             \<lparr>aggregate_local_mean = Finite 2, cs_total_block_claim_count = 2,
              validators = [(''a'', \<lparr>key_block_claim_count = PInt 1,
                 poet_public_key = PStr ''A'', total_block_claim_count = PInt 1\<rparr>)]\<rparr>)"
    by (simp only: decoded(3) option.case)
  from second decoded prefix entries empty show ?thesis by (intro conjI)
qed

text \<open>
  C3. The claim is that every buffer that decodes to an invalid state makes
  \<^verbatim>\<open>parse_from_bytes\<close> raise the \<open>ValueError\<close> of its docstring. The \<^verbatim>\<open>except\<close> clause
  names \<open>LookupError\<close>, \<open>ValueError\<close>, \<open>KeyError\<close> and \<open>TypeError\<close>; the
  \<open>OverflowError\<close> of \<^verbatim>\<open>int\<close> on an infinite float is none of them. So a buffer whose
  total is an infinity raises \<open>OverflowError\<close>, whatever its aggregate is, a negative one
  included, and the aggregate has been assigned by then.
\<close>

theorem overflow_error_escapes:
  assumes "cbor_loads lib buffer = Inr (PDict d)"
    and "map_of d (PStr ''aggregate_local_mean'') = Some a" and "py_float lib a = Inr f"
    and "map_of d (PStr ''total_block_claim_count'') = Some (PFloat PosInf)"
  shows "parse_from_bytes lib s buffer = (Inl OverflowError, s\<lparr>aggregate_local_mean := f\<rparr>)"
  using assms
  by (simp add: parse_from_bytes_def parse_body_def subscript_def py_int_def Let_def)

theorem overflow_error_escapes_witness:
  "cbor_loads example_lib buffer_infinite_total =
     Inr (PDict (toplevel (PFloat (Finite (- 1))) (PFloat PosInf) []))
   \<and> float_lt_zero (Finite (- 1))
   \<and> parse_from_bytes example_lib init buffer_infinite_total =
       (Inl OverflowError, init\<lparr>aggregate_local_mean := Finite (- 1)\<rparr>)"
proof -
  have loaded: "cbor_loads example_lib buffer_infinite_total =
     Inr (PDict (toplevel (PFloat (Finite (- 1))) (PFloat PosInf) []))"
    by (simp add: example_lib_def example_codec_def buffer_defs)
  have "parse_from_bytes example_lib init buffer_infinite_total =
       (Inl OverflowError, init\<lparr>aggregate_local_mean := Finite (- 1)\<rparr>)"
    using overflow_error_escapes [OF loaded, of "PFloat (Finite (- 1))" "Finite (- 1)" init]
    by (simp add: toplevel_def py_float_def)
  with loaded show ?thesis by simp
qed

text \<open>
  What does hold of C3: once the buffer has decoded, the call returns, raises the
  \<open>ValueError\<close> that wraps the cause, or raises \<open>OverflowError\<close>; and a call that returns
  leaves a valid aggregate, a valid total and records that satisfy the invariant.
\<close>

lemma parse_raises_value_error_or_overflow:
  assumes "parse_from_bytes lib s buffer = (Inl e, s')" and "cbor_loads lib buffer = Inr v"
  shows "(\<exists>c. e = ValueError (ErrorParsing c)) \<or> e = OverflowError"
  using assms by (rule parse_from_bytes_raises)

lemma parse_returns_valid_values:
  assumes "parse_from_bytes lib s buffer = (Inr (), s')"
  shows "isfinite (aggregate_local_mean s') \<and> \<not> float_lt_zero (aggregate_local_mean s')
    \<and> 0 \<le> cs_total_block_claim_count s'
    \<and> list_all (\<lambda>(i, r). record_invariant r) (validators s')"
proof -
  from assms have "parse_body lib s buffer = (Inr (), s')"
    by (simp add: parse_from_bytes_success)
  from parse_body_success [OF this] obtain f n vd where ok:
    "isfinite f" "\<not> float_lt_zero f" "0 \<le> n"
    and loop: "parse_validators lib vd
       (s\<lparr>aggregate_local_mean := f, cs_total_block_claim_count := n, validators := []\<rparr>)
      = (Inr (), s')"
    by blast
  from parse_validators_scalars [OF loop] ok parse_validators_invariant [OF loop]
  show ?thesis by simp
qed

text \<open>
  C10, as the specification states it: a validator record is accepted only if its two
  counts have exactly the integer type. The test is \<^verbatim>\<open>isinstance(x, int)\<close>, and
  \<^verbatim>\<open>bool\<close> is a subclass of \<^verbatim>\<open>int\<close>: the record \<^verbatim>\<open>[True, 'k', True]\<close> is accepted and
  stored with its two booleans.
\<close>

theorem parse_accepts_boolean_counts:
  "parse_from_bytes example_lib init buffer_boolean_counts =
    (Inr (), \<lparr>aggregate_local_mean = Finite 0, cs_total_block_claim_count = 0,
      validators = [(''v'', \<lparr>key_block_claim_count = PBool True, poet_public_key = PStr ''k'',
                          total_block_claim_count = PBool True\<rparr>)]\<rparr>)
   \<and> (\<forall>n. PBool True \<noteq> PInt n)"
  by (simp add: parse_eval buffer_defs init_def)

text \<open>
  C10, amended. The two scalars are accepted after conversion with \<^verbatim>\<open>float\<close> and
  \<^verbatim>\<open>int\<close>: the object holds the converted values, and a finite float total is truncated
  toward zero. The three fields of a validator record are not converted: every accepted
  entry yields exactly three elements, the first and the third instances of \<^verbatim>\<open>int\<close>
  (the booleans included) and the second a string, and every stored record has the three
  elements of an entry as they were decoded.
\<close>

theorem parse_converts_scalars_only:
  assumes "parse_from_bytes lib s buffer = (Inr (), s')"
  shows "(\<exists>d a t vd.
        cbor_loads lib buffer = Inr (PDict d)
        \<and> map_of d (PStr ''aggregate_local_mean'') = Some a
        \<and> py_float lib a = Inr (aggregate_local_mean s')
        \<and> map_of d (PStr ''total_block_claim_count'') = Some t
        \<and> py_int lib t = Inr (cs_total_block_claim_count s')
        \<and> map_of d (PStr ''_validators'') = Some (PDict vd)
        \<and> list_all (\<lambda>(key, v). \<exists>k p c.
              py_iter v = Some [k, PStr p, c]
              \<and> int_instance k \<noteq> None \<and> int_instance c \<noteq> None) vd
        \<and> list_all (\<lambda>(i, r). \<exists>(key, v) \<in> set vd.
              i = py_str lib key
              \<and> py_iter v = Some [key_block_claim_count r, poet_public_key r,
                                   total_block_claim_count r]) (validators s'))
    \<and> py_int lib (PFloat (Finite q)) = Inr (trunc_toward_zero q)
    \<and> \<bar>of_int (trunc_toward_zero q)\<bar> \<le> \<bar>q\<bar> \<and> \<bar>q - of_int (trunc_toward_zero q)\<bar> < 1"
proof -
  from assms have "parse_body lib s buffer = (Inr (), s')"
    by (simp add: parse_from_bytes_success)
  from parse_body_success [OF this] obtain d a f t n vd where
    top: "cbor_loads lib buffer = Inr (PDict d)"
      "map_of d (PStr ''aggregate_local_mean'') = Some a" "py_float lib a = Inr f"
      "map_of d (PStr ''total_block_claim_count'') = Some t" "py_int lib t = Inr n"
      "map_of d (PStr ''_validators'') = Some (PDict vd)"
    and loop: "parse_validators lib vd
       (s\<lparr>aggregate_local_mean := f, cs_total_block_claim_count := n, validators := []\<rparr>)
      = (Inr (), s')"
    by blast
  from parse_validators_scalars [OF loop] have scalars:
    "aggregate_local_mean s' = f" "cs_total_block_claim_count s' = n"
    by simp_all
  have typed: "\<exists>k p c. py_iter v = Some [k, PStr p, c]
      \<and> int_instance k \<noteq> None \<and> int_instance c \<noteq> None"
    if "make v = Inr r" and "record_invariant r" for v r
    using that
    by (auto simp: make_iff record_invariant_def split: option.splits pyval.splits)
  have entries:
    "list_all (\<lambda>(key, v). \<exists>k p c.
        py_iter v = Some [k, PStr p, c]
        \<and> int_instance k \<noteq> None \<and> int_instance c \<noteq> None) vd"
    unfolding list_all_iff
  proof (intro ballI, clarify)
    fix key v
    assume "(key, v) \<in> set vd"
    with parse_validators_accepts [OF loop] obtain r where
      "make v = Inr r" "record_invariant r"
      by (auto simp: list_all_iff)
    then show "\<exists>k p c. py_iter v = Some [k, PStr p, c]
        \<and> int_instance k \<noteq> None \<and> int_instance c \<noteq> None"
      by (rule typed)
  qed
  have stored: "list_all (\<lambda>(i, r). \<exists>(key, v) \<in> set vd.
        i = py_str lib key
        \<and> py_iter v = Some [key_block_claim_count r, poet_public_key r,
                             total_block_claim_count r]) (validators s')"
    unfolding list_all_iff
  proof (intro ballI, clarify)
    fix i r
    assume "(i, r) \<in> set (validators s')"
    from parse_validators_origin [OF loop this]
    show "\<exists>(key, v) \<in> set vd.
        i = py_str lib key
        \<and> py_iter v = Some [key_block_claim_count r, poet_public_key r,
                             total_block_claim_count r]"
      by (auto simp: make_iff)
  qed
  have "py_int lib (PFloat (Finite q)) = Inr (trunc_toward_zero q)"
    by (simp add: py_int_def)
  with top scalars entries stored trunc_toward_zero_bounds [of q] show ?thesis
    by blast
qed

theorem parse_converts_scalars_only_witness:
  "parse_from_bytes example_lib init buffer_fractional_total =
    (Inr (), \<lparr>aggregate_local_mean = Finite 2, cs_total_block_claim_count = 3,
      validators = [(''alice'', \<lparr>key_block_claim_count = PInt 1,
         poet_public_key = PStr ''A'', total_block_claim_count = PInt 2\<rparr>)]\<rparr>)
   \<and> cbor_loads example_lib buffer_fractional_total =
       Inr (PDict (toplevel (PInt 2)
         (PFloat (Finite (4165829655317709 / 1125899906842624)))
         [(PStr ''alice'', PList [PInt 1, PStr ''A'', PInt 2])]))
   \<and> py_int example_lib (PFloat (Finite (4165829655317709 / 1125899906842624))) = Inr 3
   \<and> py_int example_lib (PFloat (Finite (- (7 / 2)))) = Inr (- 3)"
proof -
  have accepted: "parse_from_bytes example_lib init buffer_fractional_total =
    (Inr (), \<lparr>aggregate_local_mean = Finite 2, cs_total_block_claim_count = 3,
      validators = [(''alice'', \<lparr>key_block_claim_count = PInt 1,
         poet_public_key = PStr ''A'', total_block_claim_count = PInt 2\<rparr>)]\<rparr>)"
    by (simp add: parse_eval buffer_defs init_def trunc_example)
  have loaded: "cbor_loads example_lib buffer_fractional_total =
       Inr (PDict (toplevel (PInt 2)
         (PFloat (Finite (4165829655317709 / 1125899906842624)))
         [(PStr ''alice'', PList [PInt 1, PStr ''A'', PInt 2])]))"
    by (simp add: example_lib_def example_codec_def buffer_defs)
  have down: "trunc_toward_zero (- (7 / 2)) = - 3"
    unfolding trunc_toward_zero_def by (simp add: ceiling_unique)
  from parse_converts_scalars_only [OF accepted, of "4165829655317709 / 1125899906842624"]
    parse_converts_scalars_only [OF accepted, of "- (7 / 2)"]
  have "py_int example_lib (PFloat (Finite (4165829655317709 / 1125899906842624))) = Inr 3"
    and "py_int example_lib (PFloat (Finite (- (7 / 2)))) = Inr (- 3)"
    by (simp_all add: trunc_example down)
  with accepted loaded show ?thesis by simp
qed

end
